theory Spec2Isabelle
  imports Main "HOL-Library.Sublist" "HOL-Library.AList"
begin

section \<open>String primitives of the host language\<close>

text \<open>
  Source strings are modelled as \<^typ>\<open>string\<close>; \<open>length\<close> stands for the
  \<open>.length\<close> of the source string.
\<close>

text \<open>\<open>s.startsWith(k)\<close>: the first \<open>length k\<close> characters of \<open>s\<close> are \<open>k\<close>.\<close>

definition startsWith :: "string \<Rightarrow> string \<Rightarrow> bool" where
  "startsWith s k = (take (length k) s = k)"

text \<open>\<open>s.includes(m)\<close>: \<open>m\<close> occurs in \<open>s\<close> at some position.\<close>

fun includes_str :: "string \<Rightarrow> string \<Rightarrow> bool" where
  "includes_str [] m = (m = [])"
| "includes_str (c # cs) m = (startsWith (c # cs) m \<or> includes_str cs m)"

text \<open>
  \<open>s.replaceAll(p, '')\<close> for a non-empty pattern \<open>p\<close>: one scan from left to right;
  an occurrence found at the current position is dropped and the scan goes on behind it,
  otherwise the current character is kept. An empty pattern leaves the string as it is.
\<close>

function removeAll :: "string \<Rightarrow> string \<Rightarrow> string" where
  "removeAll p [] = []"
| "removeAll p (c # cs) =
     (if p \<noteq> [] \<and> startsWith (c # cs) p
      then removeAll p (drop (length p - 1) cs)
      else c # removeAll p cs)"
  by pat_completeness auto
termination
  by (relation "measure (\<lambda>(p, s). length s)") auto

text \<open>
  The white space and line terminators that \<open>trimEnd\<close> removes, as far as they are
  below 256: tab, line feed, vertical tab, form feed, carriage return, space and the
  no-break space.
\<close>

definition isWhiteSpace :: "char \<Rightarrow> bool" where
  "isWhiteSpace c =
     (c \<in> {CHR 0x09, CHR 0x0A, CHR 0x0B, CHR 0x0C, CHR 0x0D, CHR '' '', CHR 0xA0})"

definition trimEnd :: "string \<Rightarrow> string" where
  "trimEnd s = rev (dropWhile isWhiteSpace (rev s))"

section \<open>The Gemini completion provider\<close>

subsection \<open>Markers\<close>

definition MARKERS_Prefix :: string where
  "MARKERS_Prefix = ''<|prefix|>''"

definition MARKERS_Suffix :: string where
  "MARKERS_Suffix = ''<|suffix|>''"

definition MARKERS_Response :: string where
  "MARKERS_Response = ''<|fim|>''"

subsection \<open>createProvider\<close>

datatype error = Error string | TypeError

record provider =
  provider_id :: string
  legacyModel :: string
  source :: string

definition SUPPORTED_GEMINI_MODELS :: "string list" where
  "SUPPORTED_GEMINI_MODELS = [''gemini-1.5-flash'', ''gemini-pro'', ''gemini-1.0-pro'']"

text \<open>
  \<open>legacyModel\<close> may be absent (\<open>None\<close>); \<open>??\<close> then takes the default. In the
  message of the error the absent model is printed as \<open>undefined\<close>.
\<close>

definition createProvider :: "string option \<Rightarrow> string \<Rightarrow> error + provider" where
  "createProvider legacyModelOpt src =
     (let clientModel = (case legacyModelOpt of None \<Rightarrow> ''google/gemini-1.5-flash'' | Some m \<Rightarrow> m)
      in if \<not> list_ex (\<lambda>m. includes_str clientModel m) SUPPORTED_GEMINI_MODELS
         then Inl (Error (''Model '' @ (case legacyModelOpt of None \<Rightarrow> ''undefined'' | Some m \<Rightarrow> m)
                            @ '' is not supported by GeminiProvider''))
         else Inr \<lparr>provider_id = ''google'', legacyModel = clientModel, source = src\<rparr>)"

subsection \<open>postProcess\<close>

text \<open>
  \<open>fixBadCompletionStart\<close> comes from the text-processing module and is a parameter
  here.
\<close>

definition postProcess :: "(string \<Rightarrow> string) \<Rightarrow> string \<Rightarrow> string" where
  "postProcess fixBadCompletionStart rawResponse =
     (let completion = rawResponse;
          completion = removeAll MARKERS_Suffix (removeAll MARKERS_Response completion);
          completion = fixBadCompletionStart completion
      in completion)"

text \<open>
  A raw response seen as text with complete markers inserted into it: a list of pieces,
  each a character of the text, a response marker or a suffix marker. \<open>rawOf\<close> is the
  raw response, \<open>textOf\<close> the text alone, and \<open>withoutResponse\<close> the raw response
  without its response markers.
\<close>

datatype piece = Plain char | ResponseMarker | SuffixMarker

fun rawOf :: "piece list \<Rightarrow> string" where
  "rawOf [] = []"
| "rawOf (Plain c # ps) = c # rawOf ps"
| "rawOf (ResponseMarker # ps) = MARKERS_Response @ rawOf ps"
| "rawOf (SuffixMarker # ps) = MARKERS_Suffix @ rawOf ps"

fun withoutResponse :: "piece list \<Rightarrow> string" where
  "withoutResponse [] = []"
| "withoutResponse (Plain c # ps) = c # withoutResponse ps"
| "withoutResponse (ResponseMarker # ps) = withoutResponse ps"
| "withoutResponse (SuffixMarker # ps) = MARKERS_Suffix @ withoutResponse ps"

fun textOf :: "piece list \<Rightarrow> string" where
  "textOf [] = []"
| "textOf (Plain c # ps) = c # textOf ps"
| "textOf (ResponseMarker # ps) = textOf ps"
| "textOf (SuffixMarker # ps) = textOf ps"

subsection \<open>createPrompt\<close>

text \<open>
  The options carry what \<open>PromptString\<close> reads from them: the prefix and the suffix of
  the document context and the display path of the document. A snippet carries the display
  path of its uri, its content and, if it has one, its symbol. \<open>getHeadAndTail\<close>,
  \<open>messagesToText\<close> and \<open>promptChars\<close> come from outside the file and are
  parameters.
\<close>

datatype speaker = human | assistant

record message =
  msg_speaker :: speaker
  msg_text :: string

record snippet =
  snippet_uri :: string
  snippet_content :: string
  snippet_symbol :: "string option"

record 'p prompt =
  messages :: "message list"
  prefixComponents :: 'p

record generateOptions =
  docContext_prefix :: string
  docContext_suffix :: string
  document_displayPath :: string

definition createContext :: "string \<Rightarrow> string \<Rightarrow> string \<Rightarrow> string" where
  "createContext type name content =
     ''\<newline>-TYPE: '' @ type @ ''\<newline>-NAME: '' @ name @ ''\<newline>-CONTENT: '' @ trimEnd content
       @ ''\<newline>---\<newline>''"

definition contextPromptOf :: "snippet \<Rightarrow> string" where
  "contextPromptOf sn =
     createContext (case snippet_symbol sn of Some _ \<Rightarrow> ''symbol'' | None \<Rightarrow> ''file'')
       (case snippet_symbol sn of Some symbol \<Rightarrow> symbol | None \<Rightarrow> snippet_uri sn)
       (snippet_content sn)"

fun groupSnippets :: "int \<Rightarrow> snippet list \<Rightarrow> string \<Rightarrow> string" where
  "groupSnippets remaining [] groupedSnippets = groupedSnippets"
| "groupSnippets remaining (sn # rest) groupedSnippets =
     (let contextPrompt = contextPromptOf sn
      in if int (length contextPrompt) + 1 > remaining \<or> length contextPrompt = 0
         then groupedSnippets
         else groupSnippets remaining rest (groupedSnippets @ contextPrompt))"

definition humanText :: "generateOptions \<Rightarrow> string \<Rightarrow> string" where
  "humanText options groupedSnippets =
     ''You are a code completion AI, designed to autofill code enclosed in special markers based on its surrounding context.\<newline>''
     @ groupedSnippets
     @ ''\<newline>\<newline>Code from '' @ document_displayPath options @ '' file:\<newline>''
     @ (MARKERS_Prefix @ docContext_prefix options @ MARKERS_Response @ docContext_suffix options @ MARKERS_Suffix)
     @ ''\<newline>\<newline>Your mission is to generate completed code that I can replace the '' @ MARKERS_Response
     @ '' markers with, ensuring a seamless and syntactically correct result.\<newline>\<newline>Do not repeat code from before and after ''
     @ MARKERS_Response
     @ '' in your output.\<newline>Maintain consistency with the indentation, spacing, and coding style used in the code.\<newline>Leave the output markers empty if no code is required to bridge the gap.\<newline>Your response should contains only the code required to connect the gap, and the code must be enclosed between ''
     @ MARKERS_Response @ '' WITHOUT backticks''"

definition promptMessages :: "generateOptions \<Rightarrow> string \<Rightarrow> message list" where
  "promptMessages options groupedSnippets =
     (let groupedSnippets =
            (if length groupedSnippets \<noteq> 0 then ''Context:\<newline>'' @ groupedSnippets @ ''\<newline>''
             else groupedSnippets)
      in [\<lparr>msg_speaker = human, msg_text = humanText options groupedSnippets\<rparr>,
          \<lparr>msg_speaker = assistant, msg_text = MARKERS_Response\<rparr>])"

definition emptyPromptLength :: "(message list \<Rightarrow> string) \<Rightarrow> generateOptions \<Rightarrow> int" where
  "emptyPromptLength messagesToText options =
     (let promptNoSnippets = messagesToText (promptMessages options (groupSnippets 0 [] []))
      in int (length promptNoSnippets) - 10)"

definition createPrompt ::
  "(string \<Rightarrow> 'p) \<Rightarrow> (message list \<Rightarrow> string) \<Rightarrow> int \<Rightarrow> generateOptions \<Rightarrow> snippet list
     \<Rightarrow> 'p prompt" where
  "createPrompt getHeadAndTail messagesToText promptChars options snippets =
     \<lparr>messages = promptMessages options
         (groupSnippets (promptChars - emptyPromptLength messagesToText options) snippets []),
      prefixComponents = getHeadAndTail (docContext_prefix options)\<rparr>"

text \<open>An instance of \<open>messagesToText\<close>: the texts of the messages, one after the other.\<close>

definition plainText :: "message list \<Rightarrow> string" where
  "plainText ms = concat (map msg_text ms)"

section \<open>The graph-context retriever\<close>

subsection \<open>Values exchanged with the engine\<close>

datatype json =
    JUndefined | JNull | JBool bool | JNum int | JStr string
  | JArr "json list" | JObj "(string \<times> json) list"

text \<open>\<open>typeof v === 'object'\<close>: also true of \<open>null\<close> and of arrays.\<close>

fun typeofObject :: "json \<Rightarrow> bool" where
  "typeofObject JNull = True"
| "typeofObject (JArr _) = True"
| "typeofObject (JObj _) = True"
| "typeofObject _ = False"

fun truthy :: "json \<Rightarrow> bool" where
  "truthy JUndefined = False"
| "truthy JNull = False"
| "truthy (JBool b) = b"
| "truthy (JNum n) = (n \<noteq> 0)"
| "truthy (JStr s) = (s \<noteq> [])"
| "truthy _ = True"

text \<open>
  \<open>v.name\<close> for a property name that is neither \<open>length\<close> nor an index: a
  TypeError on \<open>null\<close> and \<open>undefined\<close>, the field of an object, and \<open>undefined\<close>
  on every other value.
\<close>

fun getProp :: "json \<Rightarrow> string \<Rightarrow> error + json" where
  "getProp JUndefined name = Inl TypeError"
| "getProp JNull name = Inl TypeError"
| "getProp (JObj props) name = Inr (case map_of props name of None \<Rightarrow> JUndefined | Some v \<Rightarrow> v)"
| "getProp _ name = Inr JUndefined"

fun digits :: "nat \<Rightarrow> string" where
  "digits n = (if n < 10 then [char_of (48 + n)] else digits (n div 10) @ [char_of (48 + n mod 10)])"

text \<open>\<open>{...v}\<close>: the own enumerable properties of \<open>v\<close>.\<close>

fun spread :: "json \<Rightarrow> (string \<times> json) list" where
  "spread (JObj props) = props"
| "spread (JArr xs) = zip (map digits [0..<length xs]) xs"
| "spread (JStr s) = zip (map digits [0..<length s]) (map (\<lambda>c. JStr [c]) s)"
| "spread _ = []"


declare digits.simps [simp del]

subsection \<open>The engine and the retriever's state\<close>

text \<open>
  The engine is outside the program. Every interaction with it is recorded as an event;
  what the engine answers may depend on all events so far. An awaited call is taken to
  settle: it returns (\<open>Inr\<close>) or throws (\<open>Inl\<close>).
\<close>

datatype event = Spawn | Probe | Request string json

record engine =
  spawnBfg :: "event list \<Rightarrow> error option"
  respond :: "event list \<Rightarrow> string \<Rightarrow> json \<Rightarrow> error + json"
  alive :: "event list \<Rightarrow> bool"

type_synonym 'a promise = "error + 'a"

record retriever =
  loadedBFG :: "unit promise"
  bfgIndexingPromise :: "unit promise"
  awaitIndexing :: bool
  didFailLoading :: bool
  indexedRepositoryRevisions :: "(string \<times> string) list"
  events :: "event list"

record simpleRepository =
  repo_uri :: string
  repo_commit :: "string option"

text \<open>\<open>bfg.request(method, params)\<close> and \<open>bfg.isAlive()\<close>.\<close>

definition request :: "engine \<Rightarrow> string \<Rightarrow> json \<Rightarrow> retriever \<Rightarrow> (error + json) \<times> retriever" where
  "request eng method params s =
     (respond eng (events s) method params, s\<lparr>events := events s @ [Request method params]\<rparr>)"

definition isAlive :: "engine \<Rightarrow> retriever \<Rightarrow> bool \<times> retriever" where
  "isAlive eng s = (alive eng (events s), s\<lparr>events := events s @ [Probe]\<rparr>)"

subsection \<open>Loading the engine\<close>

definition doLoadBFG :: "engine \<Rightarrow> retriever \<Rightarrow> unit promise \<times> retriever" where
  "doLoadBFG eng s =
     (let s1 = s\<lparr>events := events s @ [Spawn]\<rparr>
      in case spawnBfg eng (events s) of
           Some e \<Rightarrow> (Inl e, s1)
         | None \<Rightarrow>
             (case request eng ''bfg/initialize'' (JObj [(''clientName'', JStr ''vscode'')]) s1 of
                (Inl e, s2) \<Rightarrow> (Inl e, s2)
              | (Inr _, s2) \<Rightarrow> (Inr (), s2)))"

subsection \<open>Indexing\<close>

definition isWorkspaceIndexed :: "retriever \<Rightarrow> string \<Rightarrow> bool" where
  "isWorkspaceIndexed s uri = list_ex (\<lambda>key. startsWith uri key) (map fst (indexedRepositoryRevisions s))"

definition indexEntry ::
  "engine \<Rightarrow> simpleRepository option \<Rightarrow> string option \<Rightarrow> retriever \<Rightarrow> unit promise \<times> retriever" where
  "indexEntry eng repository workspace s =
     (if repository = None \<and> workspace = None then (Inr (), s)
      else case loadedBFG s of
        Inl e \<Rightarrow> (Inl e, s)
      | Inr bfg \<Rightarrow>
          (let (r1, s1) = (case repository of
                  Some repo \<Rightarrow> request eng ''bfg/gitRevision/didChange''
                                 (JObj [(''gitDirectoryUri'', JStr (repo_uri repo))]) s
                | None \<Rightarrow> (Inr JUndefined, s))
           in case r1 of
                Inl e \<Rightarrow> (Inr (), s1)
              | Inr _ \<Rightarrow>
                  (let (r2, s2) = (case workspace of
                          Some w \<Rightarrow> request eng ''bfg/workspace/didChange''
                                      (JObj [(''workspaceUri'', JStr w)]) s1
                        | None \<Rightarrow> (Inr JUndefined, s1))
                   in (Inr (), s2))))"

fun indexRemainingWorkspaceFolders :: "engine \<Rightarrow> string list \<Rightarrow> retriever \<Rightarrow> unit promise \<times> retriever" where
  "indexRemainingWorkspaceFolders eng [] s = (Inr (), s)"
| "indexRemainingWorkspaceFolders eng (folder # rest) s =
     (if isWorkspaceIndexed s folder then indexRemainingWorkspaceFolders eng rest s
      else case indexEntry eng None (Some folder) s of
             (Inl e, s1) \<Rightarrow> (Inl e, s1)
           | (Inr _, s1) \<Rightarrow> indexRemainingWorkspaceFolders eng rest s1)"

definition didChangeSimpleRepository :: "engine \<Rightarrow> simpleRepository \<Rightarrow> retriever \<Rightarrow> unit promise \<times> retriever" where
  "didChangeSimpleRepository eng repository s =
     (let uri = repo_uri repository
      in if repo_commit repository \<noteq> map_of (indexedRepositoryRevisions s) uri
         then indexEntry eng (Some repository) None
                (s\<lparr>indexedRepositoryRevisions :=
                     AList.update uri (case repo_commit repository of Some c \<Rightarrow> c | None \<Rightarrow> [])
                       (indexedRepositoryRevisions s)\<rparr>)
         else (Inr (), s))"

text \<open>A repository of the git extension: its root and the commit of its HEAD, if any.\<close>

record gitRepository =
  rootUri :: string
  head_commit :: "string option"

definition didChangeGitExtensionRepository :: "engine \<Rightarrow> gitRepository \<Rightarrow> retriever \<Rightarrow> unit promise \<times> retriever" where
  "didChangeGitExtensionRepository eng repository s =
     (case head_commit repository of
        None \<Rightarrow> (Inr (), s)
      | Some commit \<Rightarrow>
          if commit = [] then (Inr (), s)
          else didChangeSimpleRepository eng \<lparr>repo_uri = rootUri repository, repo_commit = Some commit\<rparr> s)"

text \<open>
  What the editor tells about the workspace: the repositories of the git extension
  (\<open>None\<close> when the extension is not available), the workspace folders, the two settings,
  and \<open>inferGitRepository\<close>.
\<close>

record workspace =
  gitRepositories :: "gitRepository list option"
  workspaceFolders :: "string list"
  awaitIndexingSetting :: bool
  indexParentGitFolder :: bool
  inferGitRepository :: "string \<Rightarrow> error + simpleRepository option"

fun indexInferredLoop :: "engine \<Rightarrow> workspace \<Rightarrow> string list \<Rightarrow> retriever \<Rightarrow> unit promise \<times> retriever" where
  "indexInferredLoop eng ws [] s = (Inr (), s)"
| "indexInferredLoop eng ws (folder # rest) s =
     (if map_of (indexedRepositoryRevisions s) folder \<noteq> None then indexInferredLoop eng ws rest s
      else case inferGitRepository ws folder of
             Inl e \<Rightarrow> (Inl e, s)
           | Inr None \<Rightarrow> indexInferredLoop eng ws rest s
           | Inr (Some repo) \<Rightarrow>
               (case didChangeSimpleRepository eng repo s of
                  (Inl e, s1) \<Rightarrow> (Inl e, s1)
                | (Inr _, s1) \<Rightarrow> indexInferredLoop eng ws rest s1))"

definition indexInferredGitRepositories :: "engine \<Rightarrow> workspace \<Rightarrow> retriever \<Rightarrow> unit promise \<times> retriever" where
  "indexInferredGitRepositories eng ws s =
     (if \<not> indexParentGitFolder ws then (Inr (), s)
      else indexInferredLoop eng ws (workspaceFolders ws) s)"

fun indexOpenRepositories :: "engine \<Rightarrow> gitRepository list \<Rightarrow> retriever \<Rightarrow> unit promise \<times> retriever" where
  "indexOpenRepositories eng [] s = (Inr (), s)"
| "indexOpenRepositories eng (repository # rest) s =
     (case didChangeGitExtensionRepository eng repository s of
        (Inl e, s1) \<Rightarrow> (Inl e, s1)
      | (Inr _, s1) \<Rightarrow> indexOpenRepositories eng rest s1)"

definition indexGitRepositories :: "engine \<Rightarrow> workspace \<Rightarrow> retriever \<Rightarrow> unit promise \<times> retriever" where
  "indexGitRepositories eng ws s =
     (case gitRepositories ws of
        None \<Rightarrow> (Inr (), s)
      | Some repositories \<Rightarrow>
          (case indexOpenRepositories eng repositories s of
             (Inl e, s1) \<Rightarrow> (Inl e, s1)
           | (Inr _, s1) \<Rightarrow> indexInferredGitRepositories eng ws s1))"

definition indexWorkspace :: "engine \<Rightarrow> workspace \<Rightarrow> retriever \<Rightarrow> unit promise \<times> retriever" where
  "indexWorkspace eng ws s =
     (case indexGitRepositories eng ws s of
        (Inl e, s1) \<Rightarrow> (Inl e, s1)
      | (Inr _, s1) \<Rightarrow> indexRemainingWorkspaceFolders eng (workspaceFolders ws) s1)"

text \<open>
  The constructor. The state it returns is the one reached when the promises it created
  have settled: the load, the handler that records a failed load, and the indexing of the
  workspace, which waits for the load before its first request.
\<close>

definition new_BfgRetriever :: "engine \<Rightarrow> workspace \<Rightarrow> retriever" where
  "new_BfgRetriever eng ws =
     (let s0 = \<lparr>loadedBFG = Inr (), bfgIndexingPromise = Inr (),
                awaitIndexing = awaitIndexingSetting ws, didFailLoading = False,
                indexedRepositoryRevisions = [], events = []\<rparr>;
          (loaded, s1) = doLoadBFG eng s0;
          s2 = s1\<lparr>loadedBFG := loaded, didFailLoading := (case loaded of Inl _ \<Rightarrow> True | Inr _ \<Rightarrow> False)\<rparr>;
          (indexed, s3) = indexWorkspace eng ws s2
      in s3\<lparr>bfgIndexingPromise := indexed\<rparr>)"

subsection \<open>retrieve\<close>

record document =
  doc_uri :: string
  doc_languageId :: string

record lastCandidate =
  lastTriggerDocContext_currentLinePrefix :: string
  result_items_insertText :: "string list"

record retrieverOptions =
  opt_document :: document
  opt_position :: "nat \<times> nat"
  opt_lastCandidate :: "lastCandidate option"

text \<open>
  An identifier request is an object: \<open>ref\<close> is its identity, which is what a \<open>Set\<close>
  compares.
\<close>

record symbolSnippetsRequest =
  ref :: nat
  symbolName :: string

text \<open>The two extractors of identifiers, taking \<open>n\<close> first.\<close>

record identifiers =
  getLastNGraphContextIdentifiersFromString ::
    "nat \<Rightarrow> string \<Rightarrow> string \<Rightarrow> string \<Rightarrow> error + symbolSnippetsRequest list"
  getLastNGraphContextIdentifiersFromDocument ::
    "nat \<Rightarrow> document \<Rightarrow> nat \<times> nat \<Rightarrow> error + symbolSnippetsRequest list"

text \<open>\<open>Array.from(new Set(xs))\<close> on objects: the first occurrence of each object stays.\<close>

fun arrayFromSet :: "symbolSnippetsRequest list \<Rightarrow> symbolSnippetsRequest list" where
  "arrayFromSet [] = []"
| "arrayFromSet (x # xs) = x # arrayFromSet (filter (\<lambda>y. ref y \<noteq> ref x) xs)"

text \<open>
  The prefix of the trigger line, then the insert text of the first item. Without a last
  candidate the right operand is \<open>undefined\<close> and the sum is the string \<open>undefined\<close>;
  with a last candidate that has no item, reading the insert text throws.
\<close>

definition lastCandidateCurrentLine :: "lastCandidate option \<Rightarrow> error + string" where
  "lastCandidateCurrentLine lastCandidate =
     (case lastCandidate of
        None \<Rightarrow> Inr ([] @ ''undefined'')
      | Some lc \<Rightarrow>
          (case result_items_insertText lc of
             [] \<Rightarrow> Inl TypeError
           | insertText # _ \<Rightarrow> Inr (lastTriggerDocContext_currentLinePrefix lc @ insertText)))"

definition inputIdentifiers :: "identifiers \<Rightarrow> retrieverOptions \<Rightarrow> error + symbolSnippetsRequest list" where
  "inputIdentifiers ids opts =
     (case lastCandidateCurrentLine (opt_lastCandidate opts) of
        Inl e \<Rightarrow> Inl e
      | Inr src \<Rightarrow>
          (case getLastNGraphContextIdentifiersFromString ids 10 (doc_uri (opt_document opts))
                  (doc_languageId (opt_document opts)) src of
             Inl e \<Rightarrow> Inl e
           | Inr fromString \<Rightarrow>
               (case getLastNGraphContextIdentifiersFromDocument ids 10 (opt_document opts)
                       (opt_position opts) of
                  Inl e \<Rightarrow> Inl e
                | Inr fromDocument \<Rightarrow> Inr (arrayFromSet (fromString @ fromDocument)))))"

datatype retrieverIdentifier = BfgRetriever

record 'u clientSnippet =
  snippet_props :: "(string \<times> json) list"
  snippet_identifier :: retrieverIdentifier
  snippet_fileUri :: 'u

text \<open>
  One snippet of the response, converted: its own properties, then \<open>identifier\<close> and
  \<open>uri\<close>, which replace properties of these names. \<open>uriFrom\<close> is \<open>Uri.from\<close> with
  the scheme \<open>file\<close>, applied to the \<open>fileName\<close> of the snippet.
\<close>

definition convertSnippet :: "(json \<Rightarrow> error + 'u) \<Rightarrow> json \<Rightarrow> error + 'u clientSnippet" where
  "convertSnippet uriFrom contextSnippet =
     (case getProp contextSnippet ''fileName'' of
        Inl e \<Rightarrow> Inl e
      | Inr path \<Rightarrow>
          (case uriFrom path of
             Inl e \<Rightarrow> Inl e
           | Inr u \<Rightarrow>
               Inr \<lparr>snippet_props =
                      filter (\<lambda>(k, v). k \<noteq> ''identifier'' \<and> k \<noteq> ''uri'') (spread contextSnippet),
                    snippet_identifier = BfgRetriever, snippet_fileUri = u\<rparr>))"

fun convertSnippets :: "(json \<Rightarrow> error + 'u) \<Rightarrow> json list \<Rightarrow> error + 'u clientSnippet list" where
  "convertSnippets uriFrom [] = Inr []"
| "convertSnippets uriFrom (c # cs) =
     (case convertSnippet uriFrom c of
        Inl e \<Rightarrow> Inl e
      | Inr x \<Rightarrow> (case convertSnippets uriFrom cs of Inl e \<Rightarrow> Inl e | Inr xs \<Rightarrow> Inr (x # xs)))"

text \<open>\<open>(response.symbols || []).map(...)\<close>: a value that is not an array has no \<open>map\<close>.\<close>

definition responseSymbols :: "(json \<Rightarrow> error + 'u) \<Rightarrow> json \<Rightarrow> error + 'u clientSnippet list" where
  "responseSymbols uriFrom response =
     (case getProp response ''symbols'' of
        Inl e \<Rightarrow> Inl e
      | Inr v \<Rightarrow>
          if truthy v
          then (case v of JArr xs \<Rightarrow> convertSnippets uriFrom xs | _ \<Rightarrow> Inl TypeError)
          else Inr [])"

text \<open>The body of the \<open>try\<close> block of retrieve.\<close>

definition retrieve_try ::
  "engine \<Rightarrow> identifiers \<Rightarrow> (json \<Rightarrow> error + 'u) \<Rightarrow> retrieverOptions \<Rightarrow> retriever
     \<Rightarrow> (error + 'u clientSnippet list) \<times> retriever" where
  "retrieve_try eng ids uriFrom opts s =
     (if didFailLoading s then (Inr [], s)
      else case loadedBFG s of
        Inl e \<Rightarrow> (Inl e, s)
      | Inr bfg \<Rightarrow>
          (let (live, s1) = isAlive eng s
           in if \<not> live then (Inr [], s1)
              else case (if awaitIndexing s1 then bfgIndexingPromise s1 else Inr ()) of
                Inl e \<Rightarrow> (Inl e, s1)
              | Inr _ \<Rightarrow>
                  (case inputIdentifiers ids opts of
                     Inl e \<Rightarrow> (Inl e, s1)
                   | Inr inputIds \<Rightarrow>
                       (let (r, s2) = request eng ''bfg/contextForIdentifiers''
                              (JObj [(''uri'', JStr (doc_uri (opt_document opts))),
                                     (''identifiers'', JArr (map (\<lambda>snippetRequest. JStr (symbolName snippetRequest))
                                                             inputIds)),
                                     (''maxSnippets'', JNum 20),
                                     (''maxDepth'', JNum 4)]) s1
                        in case r of
                             Inl e \<Rightarrow> (Inl e, s2)
                           | Inr response \<Rightarrow>
                               if \<not> typeofObject response then (Inr [], s2)
                               else (responseSymbols uriFrom response, s2)))))"

text \<open>retrieve: the \<open>catch\<close> turns every error of the body into the empty list.\<close>

definition retrieve ::
  "engine \<Rightarrow> identifiers \<Rightarrow> (json \<Rightarrow> error + 'u) \<Rightarrow> retrieverOptions \<Rightarrow> retriever
     \<Rightarrow> (error + 'u clientSnippet list) \<times> retriever" where
  "retrieve eng ids uriFrom opts s =
     (case retrieve_try eng ids uriFrom opts s of
        (Inl error, s1) \<Rightarrow> (Inr [], s1)
      | (Inr symbols, s1) \<Rightarrow> (Inr symbols, s1))"

definition dispose :: "engine \<Rightarrow> retriever \<Rightarrow> retriever" where
  "dispose eng s =
     (if didFailLoading s then s
      else case loadedBFG s of
             Inl e \<Rightarrow> s
           | Inr bfg \<Rightarrow> snd (request eng ''bfg/shutdown'' JNull s))"

subsection \<open>A session: calls on the retriever, one after the other\<close>

text \<open>
  After the constructor the retriever is called by its user (retrieve, dispose) and by the
  handlers that indexGitRepositories has registered: a repository opened in the git
  extension, and a change of the workspace folders.
\<close>

datatype call =
    Retrieve retrieverOptions
  | DidChangeGitExtensionRepository gitRepository
  | IndexInferredGitRepositories workspace
  | Dispose

datatype 'u outcome = Snippets "error + 'u clientSnippet list" | Settled "unit promise"

definition perform ::
  "engine \<Rightarrow> identifiers \<Rightarrow> (json \<Rightarrow> error + 'u) \<Rightarrow> call \<Rightarrow> retriever \<Rightarrow> 'u outcome \<times> retriever" where
  "perform eng ids uriFrom c s =
     (case c of
        Retrieve opts \<Rightarrow> (case retrieve eng ids uriFrom opts s of (r, s1) \<Rightarrow> (Snippets r, s1))
      | DidChangeGitExtensionRepository repository \<Rightarrow>
          (case didChangeGitExtensionRepository eng repository s of (r, s1) \<Rightarrow> (Settled r, s1))
      | IndexInferredGitRepositories ws \<Rightarrow>
          (case indexInferredGitRepositories eng ws s of (r, s1) \<Rightarrow> (Settled r, s1))
      | Dispose \<Rightarrow> (Settled (Inr ()), dispose eng s))"

fun session ::
  "engine \<Rightarrow> identifiers \<Rightarrow> (json \<Rightarrow> error + 'u) \<Rightarrow> call list \<Rightarrow> retriever
     \<Rightarrow> 'u outcome list \<times> retriever" where
  "session eng ids uriFrom [] s = ([], s)"
| "session eng ids uriFrom (c # cs) s =
     (case perform eng ids uriFrom c s of
        (r, s1) \<Rightarrow> (case session eng ids uriFrom cs s1 of (rs, s2) \<Rightarrow> (r # rs, s2)))"

subsection \<open>Concrete engines and states\<close>

text \<open>An engine that starts and answers every request with \<open>null\<close>.\<close>

definition engine_ready :: engine where
  "engine_ready = \<lparr>spawnBfg = (\<lambda>h. None), respond = (\<lambda>h method params. Inr JNull), alive = (\<lambda>h. True)\<rparr>"

text \<open>A retriever whose engine is loaded and that has indexed the repository \<open>/repo\<close>.\<close>

definition retriever_repo :: retriever where
  "retriever_repo = \<lparr>loadedBFG = Inr (), bfgIndexingPromise = Inr (), awaitIndexing = False,
     didFailLoading = False, indexedRepositoryRevisions = [(''/repo'', ''abc'')], events = []\<rparr>"

text \<open>An engine that starts and fails every request.\<close>

definition engine_failing :: engine where
  "engine_failing = \<lparr>spawnBfg = (\<lambda>h. None), respond = (\<lambda>h method params. Inl (Error ''transport'')),
     alive = (\<lambda>h. True)\<rparr>"

text \<open>An engine whose process cannot be started.\<close>

definition engine_no_spawn :: engine where
  "engine_no_spawn = \<lparr>spawnBfg = (\<lambda>h. Some (Error ''spawn'')), respond = (\<lambda>h method params. Inr JNull),
     alive = (\<lambda>h. True)\<rparr>"

text \<open>
  A workspace with the repository \<open>/repo\<close> at commit \<open>abc\<close> and the folders
  \<open>/repo/sub\<close> and \<open>/other\<close>.
\<close>

definition workspace_repo :: workspace where
  "workspace_repo = \<lparr>gitRepositories = Some [\<lparr>rootUri = ''/repo'', head_commit = Some ''abc''\<rparr>],
     workspaceFolders = [''/repo/sub'', ''/other''], awaitIndexingSetting = False,
     indexParentGitFolder = False, inferGitRepository = (\<lambda>uri. Inr None)\<rparr>"

text \<open>
  Extractors that find \<open>foo\<close> and \<open>bar\<close> in the last candidate and \<open>bar\<close> and
  \<open>baz\<close> in the document: four objects.
\<close>

definition identifiers_overlap :: identifiers where
  "identifiers_overlap =
     \<lparr>getLastNGraphContextIdentifiersFromString =
        (\<lambda>n uri languageId src. Inr [\<lparr>ref = 1, symbolName = ''foo''\<rparr>, \<lparr>ref = 2, symbolName = ''bar''\<rparr>]),
      getLastNGraphContextIdentifiersFromDocument =
        (\<lambda>n document position. Inr [\<lparr>ref = 3, symbolName = ''bar''\<rparr>, \<lparr>ref = 4, symbolName = ''baz''\<rparr>])\<rparr>"

definition options_a :: retrieverOptions where
  "options_a = \<lparr>opt_document = \<lparr>doc_uri = ''/repo/a.ts'', doc_languageId = ''typescript''\<rparr>,
     opt_position = (0, 0), opt_lastCandidate = None\<rparr>"

text \<open>An engine that answers every request with one symbol of the file \<open>/repo/b.ts\<close>.\<close>

definition engine_answering :: engine where
  "engine_answering = \<lparr>spawnBfg = (\<lambda>h. None),
     respond = (\<lambda>h method params.
        Inr (JObj [(''symbols'', JArr [JObj [(''fileName'', JStr ''/repo/b.ts''), (''symbol'', JStr ''foo''),
                                             (''content'', JStr ''function foo() {}'')]])])),
     alive = (\<lambda>h. True)\<rparr>"

subsection \<open>The requests of the retriever\<close>

text \<open>The names and the shapes of the parameters of the five requests.\<close>

fun isJStr :: "json \<Rightarrow> bool" where
  "isJStr (JStr _) = True"
| "isJStr _ = False"

definition rpcShape :: "string \<Rightarrow> json \<Rightarrow> bool" where
  "rpcShape method params =
     (if method = ''bfg/initialize'' then params = JObj [(''clientName'', JStr ''vscode'')]
      else if method = ''bfg/gitRevision/didChange''
        then (case params of JObj props \<Rightarrow> map fst props = [''gitDirectoryUri''] \<and> list_all isJStr (map snd props)
              | _ \<Rightarrow> False)
      else if method = ''bfg/workspace/didChange''
        then (case params of JObj props \<Rightarrow> map fst props = [''workspaceUri''] \<and> list_all isJStr (map snd props)
              | _ \<Rightarrow> False)
      else if method = ''bfg/contextForIdentifiers''
        then (case params of
                JObj props \<Rightarrow>
                  map fst props = [''uri'', ''identifiers'', ''maxSnippets'', ''maxDepth'']
                  \<and> isJStr (snd (props ! 0))
                  \<and> (case snd (props ! 1) of JArr xs \<Rightarrow> list_all isJStr xs | _ \<Rightarrow> False)
                  \<and> snd (props ! 2) = JNum 20 \<and> snd (props ! 3) = JNum 4
              | _ \<Rightarrow> False)
      else if method = ''bfg/shutdown'' then params = JNull
      else False)"

fun eventShape :: "event \<Rightarrow> bool" where
  "eventShape (Request method params) = rpcShape method params"
| "eventShape _ = True"

text \<open>A response is well-formed when it is an object whose \<open>symbols\<close> is an array.\<close>

fun wellFormedResponse :: "json \<Rightarrow> bool" where
  "wellFormedResponse (JObj props) = (case map_of props ''symbols'' of Some (JArr xs) \<Rightarrow> True | _ \<Rightarrow> False)"
| "wellFormedResponse _ = False"

text \<open>The method names as the specification writes them.\<close>

definition specMethodNames :: "string list" where
  "specMethodNames = [''engine/initialize'', ''engine/gitRevision/didChange'',
     ''engine/workspace/didChange'', ''engine/contextForIdentifiers'', ''engine/shutdown'']"

fun specMethod :: "event \<Rightarrow> bool" where
  "specMethod (Request method params) = (method \<in> set specMethodNames)"
| "specMethod _ = True"

text \<open>
  What a call on a constructed retriever leaves alone: the outcome of the load and its
  flag stay, the events only grow, by well-shaped requests and probes, and not at all when
  the load has failed.
\<close>

definition extends :: "retriever \<Rightarrow> retriever \<Rightarrow> bool" where
  "extends s s' =
     (loadedBFG s' = loadedBFG s \<and> didFailLoading s' = didFailLoading s
      \<and> take (length (events s)) (events s') = events s
      \<and> list_all eventShape (drop (length (events s)) (events s'))
      \<and> Spawn \<notin> set (drop (length (events s)) (events s'))
      \<and> (if isl (loadedBFG s) then events s' = events s else True))"

section \<open>Facts about the string primitives\<close>

lemma startsWith_prefix: "startsWith s k \<longleftrightarrow> prefix k s"
  unfolding startsWith_def
  by (metis append_eq_conv_conj prefix_def take_is_prefix)

lemma includes_sublist: "includes_str s m \<longleftrightarrow> sublist m s"
proof (induction s)
  case Nil
  then show ?case by simp
next
  case (Cons c cs)
  show ?case
    by (simp add: Cons.IH startsWith_prefix sublist_Cons_right)
qed

section \<open>createProvider\<close>

lemma default_model_supported: "includes_str ''google/gemini-1.5-flash'' ''gemini-1.5-flash''"
  by (simp add: startsWith_def)

text \<open>
  C10. createProvider returns a provider exactly when the requested model name, or
  \<open>google/gemini-1.5-flash\<close> when none is given, contains one of the substrings
  \<open>gemini-1.5-flash\<close>, \<open>gemini-pro\<close>, \<open>gemini-1.0-pro\<close>; the provider then carries that
  model name. For every other model name the result is an error and no provider.
\<close>

theorem createProvider_supported_iff:
  "(\<exists>p. createProvider legacyModelOpt src = Inr p) =
     (sublist ''gemini-1.5-flash'' (case_option ''google/gemini-1.5-flash'' id legacyModelOpt)
      \<or> sublist ''gemini-pro'' (case_option ''google/gemini-1.5-flash'' id legacyModelOpt)
      \<or> sublist ''gemini-1.0-pro'' (case_option ''google/gemini-1.5-flash'' id legacyModelOpt))
   \<and> (createProvider legacyModelOpt src =
        (if sublist ''gemini-1.5-flash'' (case_option ''google/gemini-1.5-flash'' id legacyModelOpt)
            \<or> sublist ''gemini-pro'' (case_option ''google/gemini-1.5-flash'' id legacyModelOpt)
            \<or> sublist ''gemini-1.0-pro'' (case_option ''google/gemini-1.5-flash'' id legacyModelOpt)
         then Inr \<lparr>provider_id = ''google'',
                   legacyModel = case_option ''google/gemini-1.5-flash'' id legacyModelOpt,
                   source = src\<rparr>
         else Inl (Error (''Model '' @ case_option ''undefined'' id legacyModelOpt
                            @ '' is not supported by GeminiProvider''))))"
  by (cases legacyModelOpt)
     (auto simp: createProvider_def SUPPORTED_GEMINI_MODELS_def Let_def
        simp del: includes_str.simps simp flip: includes_sublist)

section \<open>postProcess\<close>

lemma removeAll_at_marker:
  "removeAll MARKERS_Response (MARKERS_Response @ r) = removeAll MARKERS_Response r"
  "removeAll MARKERS_Response (MARKERS_Suffix @ r) = MARKERS_Suffix @ removeAll MARKERS_Response r"
  "removeAll MARKERS_Suffix (MARKERS_Suffix @ r) = removeAll MARKERS_Suffix r"
  by (simp_all add: startsWith_def MARKERS_Response_def MARKERS_Suffix_def)

lemma prefix_rawOf_textOf:
  "CHR ''<'' \<notin> set u \<Longrightarrow> prefix u (rawOf ps) \<Longrightarrow> prefix u (textOf ps)"
proof (induction ps arbitrary: u rule: rawOf.induct)
  case 1
  then show ?case by simp
next
  case (2 c ps)
  then show ?case by (cases u) auto
next
  case (3 ps)
  then show ?case by (cases u) (auto simp: MARKERS_Response_def)
next
  case (4 ps)
  then show ?case by (cases u) (auto simp: MARKERS_Suffix_def)
qed

lemma prefix_withoutResponse_textOf:
  "CHR ''<'' \<notin> set u \<Longrightarrow> prefix u (withoutResponse ps) \<Longrightarrow> prefix u (textOf ps)"
proof (induction ps arbitrary: u rule: rawOf.induct)
  case 1
  then show ?case by simp
next
  case (2 c ps)
  then show ?case by (cases u) auto
next
  case (3 ps)
  then show ?case by simp
next
  case (4 ps)
  then show ?case by (cases u) (auto simp: MARKERS_Suffix_def)
qed

lemma sublist_textOf_Cons: "sublist m (textOf ps) \<Longrightarrow> sublist m (textOf (p # ps))"
  by (cases p) (simp_all add: sublist_Cons_right)

lemma removeAll_Response_rawOf:
  "\<not> sublist MARKERS_Response (textOf ps) \<Longrightarrow> removeAll MARKERS_Response (rawOf ps) = withoutResponse ps"
proof (induction ps rule: rawOf.induct)
  case 1
  then show ?case by simp
next
  case (2 c ps)
  have ih: "removeAll MARKERS_Response (rawOf ps) = withoutResponse ps"
    using 2 sublist_textOf_Cons [of MARKERS_Response ps "Plain c"] by blast
  have "\<not> startsWith (c # rawOf ps) MARKERS_Response"
  proof
    assume "startsWith (c # rawOf ps) MARKERS_Response"
    then have p: "prefix (CHR ''<'' # ''|fim|>'') (c # rawOf ps)"
      by (simp add: startsWith_prefix MARKERS_Response_def)
    then have "c = CHR ''<''" and "prefix ''|fim|>'' (rawOf ps)"
      by simp_all
    then have "prefix ''|fim|>'' (textOf ps)"
      using prefix_rawOf_textOf [of "''|fim|>''" ps] by simp
    then have "prefix MARKERS_Response (textOf (Plain c # ps))"
      using \<open>c = CHR ''<''\<close> by (simp add: MARKERS_Response_def)
    then show False using "2.prems" by (simp add: prefix_imp_sublist)
  qed
  then show ?case using ih by simp
next
  case (3 ps)
  then have "removeAll MARKERS_Response (rawOf ps) = withoutResponse ps"
    by simp
  then show ?case
    by (simp only: rawOf.simps withoutResponse.simps removeAll_at_marker)
next
  case (4 ps)
  then have "removeAll MARKERS_Response (rawOf ps) = withoutResponse ps"
    by simp
  then show ?case
    by (simp only: rawOf.simps withoutResponse.simps removeAll_at_marker)
qed

lemma removeAll_Suffix_withoutResponse:
  "\<not> sublist MARKERS_Suffix (textOf ps) \<Longrightarrow> removeAll MARKERS_Suffix (withoutResponse ps) = textOf ps"
proof (induction ps rule: rawOf.induct)
  case 1
  then show ?case by simp
next
  case (2 c ps)
  have ih: "removeAll MARKERS_Suffix (withoutResponse ps) = textOf ps"
    using 2 sublist_textOf_Cons [of MARKERS_Suffix ps "Plain c"] by blast
  have "\<not> startsWith (c # withoutResponse ps) MARKERS_Suffix"
  proof
    assume "startsWith (c # withoutResponse ps) MARKERS_Suffix"
    then have p: "prefix (CHR ''<'' # ''|suffix|>'') (c # withoutResponse ps)"
      by (simp add: startsWith_prefix MARKERS_Suffix_def)
    then have "c = CHR ''<''" and "prefix ''|suffix|>'' (withoutResponse ps)"
      by simp_all
    then have "prefix ''|suffix|>'' (textOf ps)"
      using prefix_withoutResponse_textOf [of "''|suffix|>''" ps] by simp
    then have "prefix MARKERS_Suffix (textOf (Plain c # ps))"
      using \<open>c = CHR ''<''\<close> by (simp add: MARKERS_Suffix_def)
    then show False using "2.prems" by (simp add: prefix_imp_sublist)
  qed
  then show ?case using ih by simp
next
  case (3 ps)
  then show ?case by simp
next
  case (4 ps)
  then have "removeAll MARKERS_Suffix (withoutResponse ps) = textOf ps"
    by simp
  then show ?case
    by (simp only: textOf.simps withoutResponse.simps removeAll_at_marker)
qed

lemma suffix_no_sublist: "suffix a b \<Longrightarrow> \<not> sublist m b \<Longrightarrow> \<not> sublist m a"
  using sublist_order.order_trans suffix_imp_sublist by blast

text \<open>
  C9, as amended. postProcess removes the response markers in one scan from left to right,
  then the suffix markers in one scan, then applies \<open>fixBadCompletionStart\<close>. When
  the raw response is a text with complete response and suffix markers inserted into it,
  and the text itself contains neither marker, the result is \<open>fixBadCompletionStart\<close>
  of that text; as \<open>fixBadCompletionStart\<close> only cuts characters off the start, the
  result contains neither marker.
\<close>

theorem postProcess_inserted_markers:
  assumes "\<not> sublist MARKERS_Response (textOf ps)"
      and "\<not> sublist MARKERS_Suffix (textOf ps)"
      and "\<And>s. suffix (fixBadCompletionStart s) s"
  shows "postProcess fixBadCompletionStart (rawOf ps) = fixBadCompletionStart (textOf ps)
       \<and> \<not> sublist MARKERS_Response (postProcess fixBadCompletionStart (rawOf ps))
       \<and> \<not> sublist MARKERS_Suffix (postProcess fixBadCompletionStart (rawOf ps))"
proof -
  have "removeAll MARKERS_Suffix (removeAll MARKERS_Response (rawOf ps)) = textOf ps"
    using assms(1,2) by (simp add: removeAll_Response_rawOf removeAll_Suffix_withoutResponse)
  then have p: "postProcess fixBadCompletionStart (rawOf ps) = fixBadCompletionStart (textOf ps)"
    by (simp add: postProcess_def)
  have "suffix (fixBadCompletionStart (textOf ps)) (textOf ps)"
    by (rule assms(3))
  then show ?thesis
    using p assms(1,2) suffix_no_sublist by metis
qed

text \<open>A raw response without markers is its own text.\<close>

lemma rawOf_Plain: "rawOf (map Plain s) = s" "textOf (map Plain s) = s"
  by (induction s) simp_all

lemma rawOf_example:
  "rawOf (map Plain ''- a <| b < c'' @ [ResponseMarker] @ map Plain ''d'' @ [SuffixMarker])
     = ''- a <| b < c<|fim|>d<|suffix|>''"
  "textOf (map Plain ''- a <| b < c'' @ [ResponseMarker] @ map Plain ''d'' @ [SuffixMarker])
     = ''- a <| b < cd''"
  by (simp_all add: MARKERS_Response_def MARKERS_Suffix_def)

lemma text_example_no_markers:
  "\<not> sublist MARKERS_Response ''- a <| b < cd''" "\<not> sublist MARKERS_Suffix ''- a <| b < cd''"
  by (simp_all add: MARKERS_Response_def MARKERS_Suffix_def startsWith_def flip: includes_sublist)

theorem postProcess_inserted_markers_witness:
  "postProcess (dropWhile (\<lambda>c. c = CHR ''-'')) ''- a <| b < c<|fim|>d<|suffix|>'' = '' a <| b < cd''
   \<and> \<not> sublist MARKERS_Response (postProcess (dropWhile (\<lambda>c. c = CHR ''-'')) ''- a <| b < c<|fim|>d<|suffix|>'')
   \<and> \<not> sublist MARKERS_Suffix (postProcess (dropWhile (\<lambda>c. c = CHR ''-'')) ''- a <| b < c<|fim|>d<|suffix|>'')"
proof -
  have s: "\<And>s. suffix (dropWhile (\<lambda>c. c = CHR ''-'') s) s"
    by (rule suffix_dropWhile)
  have e: "dropWhile (\<lambda>c. c = CHR ''-'') ''- a <| b < cd'' = '' a <| b < cd''"
    by simp
  show ?thesis
    by (rule postProcess_inserted_markers
      [of "map Plain ''- a <| b < c'' @ [ResponseMarker] @ map Plain ''d'' @ [SuffixMarker]"
          "dropWhile (\<lambda>c. c = CHR ''-'')", unfolded rawOf_example, OF text_example_no_markers s,
       unfolded e])
qed

text \<open>
  A response marker split by another response marker: the scan removes the inner one and
  leaves the outer one, now joined, in the result.
\<close>

theorem postProcess_nested_marker_counterexample:
  "postProcess (\<lambda>s. s) ''<|f<|fim|>im|>'' = ''<|fim|>''
   \<and> sublist MARKERS_Response (postProcess (\<lambda>s. s) ''<|f<|fim|>im|>'')"
  by (simp add: postProcess_def MARKERS_Response_def MARKERS_Suffix_def startsWith_def)


section \<open>createPrompt\<close>

text \<open>The loop packs the longest prefix of the snippets whose blocks all pass its test.\<close>

lemma groupSnippets_takeWhile:
  "groupSnippets limit snippets acc =
     acc @ concat (takeWhile (\<lambda>b. int (length b) + 1 \<le> limit \<and> b \<noteq> []) (map contextPromptOf snippets))"
  by (induction snippets arbitrary: acc) (auto simp: Let_def)

lemma createPrompt_no_snippets:
  "messages (createPrompt getHeadAndTail messagesToText promptChars options []) = promptMessages options []"
  by (simp add: createPrompt_def)

lemma emptyPromptLength_example:
  "emptyPromptLength plainText
     \<lparr>docContext_prefix = ''const x = '', docContext_suffix = '';'', document_displayPath = ''a.ts''\<rparr> = 682"
  by (simp add: emptyPromptLength_def promptMessages_def humanText_def plainText_def
      MARKERS_Prefix_def MARKERS_Response_def MARKERS_Suffix_def)

lemma contextPromptOf_example:
  "contextPromptOf \<lparr>snippet_uri = ''b.ts'', snippet_content = ''export const y = 1\<newline>'', snippet_symbol = None\<rparr>
     = ''\<newline>-TYPE: file\<newline>-NAME: b.ts\<newline>-CONTENT: export const y = 1\<newline>---\<newline>''"
  by (simp add: contextPromptOf_def createContext_def trimEnd_def isWhiteSpace_def)

text \<open>
  The fixed prompt text is never shortened: with a budget of 500 characters no snippet is
  packed and the prompt has 692 characters.
\<close>

lemma createPrompt_fixed_text_not_shortened:
  "\<not> int (length (plainText (messages (createPrompt id plainText 500
          \<lparr>docContext_prefix = ''const x = '', docContext_suffix = '';'', document_displayPath = ''a.ts''\<rparr>
          [\<lparr>snippet_uri = ''b.ts'', snippet_content = ''export const y = 1\<newline>'', snippet_symbol = None\<rparr>]))))
      \<le> 500"
  by (simp add: createPrompt_def emptyPromptLength_example contextPromptOf_example Let_def
      promptMessages_def humanText_def plainText_def
      MARKERS_Prefix_def MARKERS_Response_def MARKERS_Suffix_def)

lemma trimEnd_replicate: "\<not> isWhiteSpace c \<Longrightarrow> trimEnd (replicate n c) = replicate n c"
proof -
  assume "\<not> isWhiteSpace c"
  then have "dropWhile isWhiteSpace (replicate n c) = replicate n c"
    by (cases n) simp_all
  then show ?thesis
    unfolding trimEnd_def rev_replicate by simp
qed

text \<open>
  C1. The test of a block compares its length with \<open>promptChars - emptyPromptLength\<close>,
  a limit that is the same for every block: it is not reduced by the blocks already
  packed. With a budget of 1000 characters the prompt without snippets has 692 characters
  and fits; two blocks of 240 characters each pass the test against the limit 318; and the
  prompt with both has 1182 characters, more than the budget.
\<close>

theorem createPrompt_exceeds_budget:
  "int (length (plainText (messages (createPrompt id plainText 1000
          \<lparr>docContext_prefix = ''const x = '', docContext_suffix = '';'', document_displayPath = ''a.ts''\<rparr> [])))) = 692
   \<and> int (length (contextPromptOf \<lparr>snippet_uri = ''b.ts'', snippet_content = replicate 200 (CHR ''a''), snippet_symbol = None\<rparr>)) = 240
   \<and> 1000 - emptyPromptLength plainText
           \<lparr>docContext_prefix = ''const x = '', docContext_suffix = '';'', document_displayPath = ''a.ts''\<rparr> = 318
   \<and> int (length (plainText (messages (createPrompt id plainText 1000
          \<lparr>docContext_prefix = ''const x = '', docContext_suffix = '';'', document_displayPath = ''a.ts''\<rparr>
          [\<lparr>snippet_uri = ''b.ts'', snippet_content = replicate 200 (CHR ''a''), snippet_symbol = None\<rparr>,
           \<lparr>snippet_uri = ''b.ts'', snippet_content = replicate 200 (CHR ''a''), snippet_symbol = None\<rparr>]))))
      = 1182
   \<and> \<not> int (length (plainText (messages (createPrompt id plainText 1000
          \<lparr>docContext_prefix = ''const x = '', docContext_suffix = '';'', document_displayPath = ''a.ts''\<rparr>
          [\<lparr>snippet_uri = ''b.ts'', snippet_content = replicate 200 (CHR ''a''), snippet_symbol = None\<rparr>,
           \<lparr>snippet_uri = ''b.ts'', snippet_content = replicate 200 (CHR ''a''), snippet_symbol = None\<rparr>]))))
      \<le> 1000"
  by (simp add: createPrompt_def emptyPromptLength_example contextPromptOf_def createContext_def
      trimEnd_replicate isWhiteSpace_def Let_def
      promptMessages_def humanText_def plainText_def
      MARKERS_Prefix_def MARKERS_Response_def MARKERS_Suffix_def)

text \<open>
  One block is enough: the limit leaves out the ten characters around the packed blocks
  and, by the ten that emptyPromptLength subtracts, ten more. A block of 317 characters
  passes the test against the limit 318, and the prompt has 1019 characters.
\<close>

lemma createPrompt_one_block_exceeds_budget:
  "int (length (contextPromptOf \<lparr>snippet_uri = ''b.ts'', snippet_content = replicate 277 (CHR ''a''), snippet_symbol = None\<rparr>)) + 1
     \<le> 1000 - emptyPromptLength plainText
           \<lparr>docContext_prefix = ''const x = '', docContext_suffix = '';'', document_displayPath = ''a.ts''\<rparr>
   \<and> int (length (plainText (messages (createPrompt id plainText 1000
          \<lparr>docContext_prefix = ''const x = '', docContext_suffix = '';'', document_displayPath = ''a.ts''\<rparr>
          [\<lparr>snippet_uri = ''b.ts'', snippet_content = replicate 277 (CHR ''a''), snippet_symbol = None\<rparr>]))))
      = 1019"
  by (simp add: createPrompt_def emptyPromptLength_example contextPromptOf_def createContext_def
      trimEnd_replicate isWhiteSpace_def Let_def
      promptMessages_def humanText_def plainText_def
      MARKERS_Prefix_def MARKERS_Response_def MARKERS_Suffix_def)

section \<open>Workspace folders\<close>

lemma isWorkspaceIndexed_iff:
  "isWorkspaceIndexed s folder \<longleftrightarrow> (\<exists>key \<in> set (map fst (indexedRepositoryRevisions s)). prefix key folder)"
  by (simp add: isWorkspaceIndexed_def list_ex_iff startsWith_prefix)

lemma indexEntry_workspace:
  assumes "indexEntry eng None (Some w) s = (r, s1)"
  shows "indexedRepositoryRevisions s1 = indexedRepositoryRevisions s"
    and "events s1 = events s
         \<or> events s1 = events s @ [Request ''bfg/workspace/didChange'' (JObj [(''workspaceUri'', JStr w)])]"
  using assms by (auto simp: indexEntry_def request_def split: sum.splits)

lemma indexRemainingWorkspaceFolders_events:
  "\<exists>new. events (snd (indexRemainingWorkspaceFolders eng folders s)) = events s @ new
      \<and> indexedRepositoryRevisions (snd (indexRemainingWorkspaceFolders eng folders s))
          = indexedRepositoryRevisions s
      \<and> (\<forall>e \<in> set new. \<exists>f \<in> set folders. \<not> isWorkspaceIndexed s f
            \<and> e = Request ''bfg/workspace/didChange'' (JObj [(''workspaceUri'', JStr f)]))"
proof (induction folders arbitrary: s)
  case Nil
  then show ?case by simp
next
  case (Cons folder rest)
  show ?case
  proof (cases "isWorkspaceIndexed s folder")
    case True
    then show ?thesis using Cons.IH [of s] by auto
  next
    case False
    obtain r s1 where ie: "indexEntry eng None (Some folder) s = (r, s1)"
      by (cases "indexEntry eng None (Some folder) s")
    note m = indexEntry_workspace(1) [OF ie] and ev = indexEntry_workspace(2) [OF ie]
    have same: "\<And>f. isWorkspaceIndexed s1 f = isWorkspaceIndexed s f"
      by (simp add: isWorkspaceIndexed_def m)
    show ?thesis
    proof (cases r)
      case (Inl e)
      then show ?thesis using False ie ev m by auto
    next
      case (Inr u)
      obtain new where n: "events (snd (indexRemainingWorkspaceFolders eng rest s1)) = events s1 @ new"
        "indexedRepositoryRevisions (snd (indexRemainingWorkspaceFolders eng rest s1)) = indexedRepositoryRevisions s1"
        "\<forall>e \<in> set new. \<exists>f \<in> set rest. \<not> isWorkspaceIndexed s1 f
            \<and> e = Request ''bfg/workspace/didChange'' (JObj [(''workspaceUri'', JStr f)])"
        using Cons.IH [of s1] by blast
      from ev show ?thesis
      proof
        assume "events s1 = events s"
        then show ?thesis using False ie Inr n m same by auto
      next
        assume "events s1 = events s @ [Request ''bfg/workspace/didChange'' (JObj [(''workspaceUri'', JStr folder)])]"
        then show ?thesis using False ie Inr n m same by auto
      qed
    qed
  qed
qed

text \<open>
  C8. A workspace folder is reported as indexed if and only if some uri of the map of
  indexed repositories is a prefix of the folder's uri; and for a folder reported as
  indexed, indexRemainingWorkspaceFolders sends no workspace/didChange request.
\<close>

theorem isWorkspaceIndexed_containment:
  "isWorkspaceIndexed s folder = (\<exists>key \<in> set (map fst (indexedRepositoryRevisions s)). prefix key folder)
   \<and> (isWorkspaceIndexed s folder \<longrightarrow>
        Request ''bfg/workspace/didChange'' (JObj [(''workspaceUri'', JStr folder)])
          \<notin> set (drop (length (events s)) (events (snd (indexRemainingWorkspaceFolders eng folders s)))))"
proof -
  obtain new where n: "events (snd (indexRemainingWorkspaceFolders eng folders s)) = events s @ new"
     "\<forall>e \<in> set new. \<exists>f \<in> set folders. \<not> isWorkspaceIndexed s f
            \<and> e = Request ''bfg/workspace/didChange'' (JObj [(''workspaceUri'', JStr f)])"
    using indexRemainingWorkspaceFolders_events [of eng folders s] by blast
  then show ?thesis using isWorkspaceIndexed_iff by auto
qed

text \<open>The folder \<open>/repo/sub\<close> with the indexed repository \<open>/repo\<close>.\<close>

theorem isWorkspaceIndexed_containment_witness:
  "isWorkspaceIndexed retriever_repo ''/repo/sub''
   \<and> prefix ''/repo'' ''/repo/sub''
   \<and> events (snd (indexRemainingWorkspaceFolders engine_ready [''/repo/sub'', ''/other''] retriever_repo))
       = [Request ''bfg/workspace/didChange'' (JObj [(''workspaceUri'', JStr ''/other'')])]
   \<and> Request ''bfg/workspace/didChange'' (JObj [(''workspaceUri'', JStr ''/repo/sub'')])
        \<notin> set (drop (length (events retriever_repo))
           (events (snd (indexRemainingWorkspaceFolders engine_ready [''/repo/sub'', ''/other''] retriever_repo))))"
proof -
  have i: "isWorkspaceIndexed retriever_repo ''/repo/sub''"
    by (simp add: isWorkspaceIndexed_def retriever_repo_def startsWith_def)
  have e: "events (snd (indexRemainingWorkspaceFolders engine_ready [''/repo/sub'', ''/other''] retriever_repo))
       = [Request ''bfg/workspace/didChange'' (JObj [(''workspaceUri'', JStr ''/other'')])]"
    by (simp add: isWorkspaceIndexed_def retriever_repo_def startsWith_def indexEntry_def request_def
        engine_ready_def)
  from isWorkspaceIndexed_containment [of retriever_repo "''/repo/sub''" engine_ready "[''/repo/sub'', ''/other'']"] i e
  show ?thesis by simp
qed

section \<open>Repository revisions\<close>

lemma indexEntry_repository:
  assumes "indexEntry eng (Some repository) None s = (r, s1)"
  shows "indexedRepositoryRevisions s1 = indexedRepositoryRevisions s"
    and "events s1 = events s
         \<or> events s1 = events s @ [Request ''bfg/gitRevision/didChange''
                                     (JObj [(''gitDirectoryUri'', JStr (repo_uri repository))])]"
  using assms by (auto simp: indexEntry_def request_def split: sum.splits)

lemma indexEntry_repository_failed_request:
  assumes "loadedBFG s = Inr ()"
      and "respond eng (events s) ''bfg/gitRevision/didChange''
             (JObj [(''gitDirectoryUri'', JStr (repo_uri repository))]) = Inl e"
  shows "indexEntry eng (Some repository) None s =
           (Inr (), s\<lparr>events := events s @ [Request ''bfg/gitRevision/didChange''
                                               (JObj [(''gitDirectoryUri'', JStr (repo_uri repository))])]\<rparr>)"
  using assms by (simp add: indexEntry_def request_def)

lemma didChangeSimpleRepository_stored:
  assumes "map_of (indexedRepositoryRevisions s) (repo_uri repository) = repo_commit repository"
  shows "didChangeSimpleRepository eng repository s = (Inr (), s)"
  using assms by (simp add: didChangeSimpleRepository_def)

lemma didChangeSimpleRepository_records:
  assumes "repo_commit repository = Some c"
  shows "map_of (indexedRepositoryRevisions (snd (didChangeSimpleRepository eng repository s)))
           (repo_uri repository) = Some c"
proof (cases "repo_commit repository \<noteq> map_of (indexedRepositoryRevisions s) (repo_uri repository)")
  case True
  let ?s' = "s\<lparr>indexedRepositoryRevisions :=
                 AList.update (repo_uri repository) c (indexedRepositoryRevisions s)\<rparr>"
  obtain r s1 where ie: "indexEntry eng (Some repository) None ?s' = (r, s1)"
    by (cases "indexEntry eng (Some repository) None ?s'")
  have "didChangeSimpleRepository eng repository s = (r, s1)"
    using True assms ie by (simp add: didChangeSimpleRepository_def)
  then show ?thesis
    using indexEntry_repository(1) [OF ie] by (simp add: update_conv')
next
  case False
  then show ?thesis using assms by (simp add: didChangeSimpleRepository_def)
qed

text \<open>
  C6. Observing a repository whose commit is the one stored for its uri sends no request
  and changes nothing; so observing the same uri and commit a second time sends nothing.
  A gitRevision/didChange request is sent only when the observed commit differs from the
  stored one, and then it is one request.
\<close>

theorem didChangeSimpleRepository_same_commit:
  "(map_of (indexedRepositoryRevisions s) (repo_uri repository) = repo_commit repository \<longrightarrow>
      didChangeSimpleRepository eng repository s = (Inr (), s))
   \<and> didChangeSimpleRepository eng \<lparr>repo_uri = uri, repo_commit = Some c\<rparr>
        (snd (didChangeSimpleRepository eng \<lparr>repo_uri = uri, repo_commit = Some c\<rparr> s))
      = (Inr (), snd (didChangeSimpleRepository eng \<lparr>repo_uri = uri, repo_commit = Some c\<rparr> s))
   \<and> (events (snd (didChangeSimpleRepository eng repository s)) \<noteq> events s \<longrightarrow>
        repo_commit repository \<noteq> map_of (indexedRepositoryRevisions s) (repo_uri repository)
        \<and> events (snd (didChangeSimpleRepository eng repository s))
            = events s @ [Request ''bfg/gitRevision/didChange''
                            (JObj [(''gitDirectoryUri'', JStr (repo_uri repository))])])"
proof (intro conjI impI)
  assume "map_of (indexedRepositoryRevisions s) (repo_uri repository) = repo_commit repository"
  then show "didChangeSimpleRepository eng repository s = (Inr (), s)"
    by (rule didChangeSimpleRepository_stored)
next
  let ?r = "\<lparr>repo_uri = uri, repo_commit = Some c\<rparr>"
  have "map_of (indexedRepositoryRevisions (snd (didChangeSimpleRepository eng ?r s))) (repo_uri ?r) = Some c"
    by (rule didChangeSimpleRepository_records) simp
  then show "didChangeSimpleRepository eng ?r (snd (didChangeSimpleRepository eng ?r s))
      = (Inr (), snd (didChangeSimpleRepository eng ?r s))"
    by (simp add: didChangeSimpleRepository_stored)
next
  assume ne: "events (snd (didChangeSimpleRepository eng repository s)) \<noteq> events s"
  then show d: "repo_commit repository \<noteq> map_of (indexedRepositoryRevisions s) (repo_uri repository)"
    by (auto simp: didChangeSimpleRepository_def)
  let ?s' = "s\<lparr>indexedRepositoryRevisions :=
                 AList.update (repo_uri repository) (case repo_commit repository of Some c \<Rightarrow> c | None \<Rightarrow> [])
                   (indexedRepositoryRevisions s)\<rparr>"
  obtain r s1 where ie: "indexEntry eng (Some repository) None ?s' = (r, s1)"
    by (cases "indexEntry eng (Some repository) None ?s'")
  have eq: "didChangeSimpleRepository eng repository s = (r, s1)"
    using d ie by (simp add: didChangeSimpleRepository_def)
  show "events (snd (didChangeSimpleRepository eng repository s))
            = events s @ [Request ''bfg/gitRevision/didChange''
                            (JObj [(''gitDirectoryUri'', JStr (repo_uri repository))])]"
    using indexEntry_repository(2) [OF ie] ne eq by auto
qed

theorem didChangeSimpleRepository_same_commit_witness:
  "map_of (indexedRepositoryRevisions retriever_repo) ''/repo'' = Some ''abc''
   \<and> didChangeSimpleRepository engine_ready \<lparr>repo_uri = ''/repo'', repo_commit = Some ''abc''\<rparr> retriever_repo
       = (Inr (), retriever_repo)
   \<and> events (snd (didChangeSimpleRepository engine_ready \<lparr>repo_uri = ''/repo'', repo_commit = Some ''def''\<rparr> retriever_repo))
       = [Request ''bfg/gitRevision/didChange'' (JObj [(''gitDirectoryUri'', JStr ''/repo'')])]
   \<and> Some ''def'' \<noteq> map_of (indexedRepositoryRevisions retriever_repo) ''/repo''"
proof -
  have a: "map_of (indexedRepositoryRevisions retriever_repo) ''/repo'' = Some ''abc''"
    by (simp add: retriever_repo_def)
  have b: "events (snd (didChangeSimpleRepository engine_ready \<lparr>repo_uri = ''/repo'', repo_commit = Some ''def''\<rparr> retriever_repo))
       = [Request ''bfg/gitRevision/didChange'' (JObj [(''gitDirectoryUri'', JStr ''/repo'')])]"
    by (simp add: didChangeSimpleRepository_def indexEntry_def request_def retriever_repo_def
        engine_ready_def Let_def)
  have c: "events retriever_repo = []"
    by (simp add: retriever_repo_def)
  from didChangeSimpleRepository_same_commit [of retriever_repo
      "\<lparr>repo_uri = ''/repo'', repo_commit = Some ''abc''\<rparr>" engine_ready]
    didChangeSimpleRepository_same_commit [of retriever_repo
      "\<lparr>repo_uri = ''/repo'', repo_commit = Some ''def''\<rparr>" engine_ready] a b c
  show ?thesis by simp
qed

text \<open>
  C7. When a commit other than the stored one is observed, the map records the new commit
  before indexEntry runs, and it records it whatever the engine answers. If the request
  fails, the error is swallowed: the call settles without error, the map holds the new
  commit, and the request was sent once.
\<close>

theorem didChangeSimpleRepository_optimistic:
  assumes "repo_commit repository = Some c"
      and "map_of (indexedRepositoryRevisions s) (repo_uri repository) \<noteq> Some c"
  shows "didChangeSimpleRepository eng repository s =
           indexEntry eng (Some repository) None
             (s\<lparr>indexedRepositoryRevisions := AList.update (repo_uri repository) c (indexedRepositoryRevisions s)\<rparr>)
         \<and> indexedRepositoryRevisions (snd (didChangeSimpleRepository eng repository s))
             = AList.update (repo_uri repository) c (indexedRepositoryRevisions s)
         \<and> (loadedBFG s = Inr ()
              \<and> respond eng (events s) ''bfg/gitRevision/didChange''
                   (JObj [(''gitDirectoryUri'', JStr (repo_uri repository))]) = Inl e
            \<longrightarrow> didChangeSimpleRepository eng repository s =
                  (Inr (), s\<lparr>indexedRepositoryRevisions :=
                                AList.update (repo_uri repository) c (indexedRepositoryRevisions s),
                              events := events s @ [Request ''bfg/gitRevision/didChange''
                                         (JObj [(''gitDirectoryUri'', JStr (repo_uri repository))])]\<rparr>))"
proof -
  let ?s' = "s\<lparr>indexedRepositoryRevisions := AList.update (repo_uri repository) c (indexedRepositoryRevisions s)\<rparr>"
  have eq: "didChangeSimpleRepository eng repository s = indexEntry eng (Some repository) None ?s'"
    using assms by (simp add: didChangeSimpleRepository_def)
  obtain r s1 where ie: "indexEntry eng (Some repository) None ?s' = (r, s1)"
    by (cases "indexEntry eng (Some repository) None ?s'")
  have m: "indexedRepositoryRevisions (snd (didChangeSimpleRepository eng repository s))
             = AList.update (repo_uri repository) c (indexedRepositoryRevisions s)"
    using indexEntry_repository(1) [OF ie] eq ie by simp
  have f: "didChangeSimpleRepository eng repository s =
                  (Inr (), s\<lparr>indexedRepositoryRevisions :=
                                AList.update (repo_uri repository) c (indexedRepositoryRevisions s),
                              events := events s @ [Request ''bfg/gitRevision/didChange''
                                         (JObj [(''gitDirectoryUri'', JStr (repo_uri repository))])]\<rparr>)"
    if "loadedBFG s = Inr ()"
      and "respond eng (events s) ''bfg/gitRevision/didChange''
                   (JObj [(''gitDirectoryUri'', JStr (repo_uri repository))]) = Inl e"
    using that eq indexEntry_repository_failed_request [of ?s' eng repository e] by simp
  from eq m f show ?thesis by blast
qed

theorem didChangeSimpleRepository_optimistic_witness:
  "didChangeSimpleRepository engine_failing \<lparr>repo_uri = ''/repo'', repo_commit = Some ''def''\<rparr> retriever_repo
     = (Inr (), retriever_repo\<lparr>indexedRepositoryRevisions := [(''/repo'', ''def'')],
          events := [Request ''bfg/gitRevision/didChange'' (JObj [(''gitDirectoryUri'', JStr ''/repo'')])]\<rparr>)"
proof -
  have a: "repo_commit \<lparr>repo_uri = ''/repo'', repo_commit = Some ''def''\<rparr> = Some ''def''"
    by simp
  have b: "map_of (indexedRepositoryRevisions retriever_repo)
             (repo_uri \<lparr>repo_uri = ''/repo'', repo_commit = Some ''def''\<rparr>) \<noteq> Some ''def''"
    by (simp add: retriever_repo_def)
  have c: "loadedBFG retriever_repo = Inr ()"
    by (simp add: retriever_repo_def)
  have d: "respond engine_failing (events retriever_repo) ''bfg/gitRevision/didChange''
             (JObj [(''gitDirectoryUri'', JStr (repo_uri \<lparr>repo_uri = ''/repo'', repo_commit = Some ''def''\<rparr>))])
           = Inl (Error ''transport'')"
    by (simp add: engine_failing_def)
  from didChangeSimpleRepository_optimistic [OF a b, of engine_failing "Error ''transport''"] c d
  have "didChangeSimpleRepository engine_failing \<lparr>repo_uri = ''/repo'', repo_commit = Some ''def''\<rparr> retriever_repo
     = (Inr (), retriever_repo\<lparr>indexedRepositoryRevisions :=
           AList.update (repo_uri \<lparr>repo_uri = ''/repo'', repo_commit = Some ''def''\<rparr>) ''def''
             (indexedRepositoryRevisions retriever_repo),
          events := events retriever_repo @ [Request ''bfg/gitRevision/didChange''
             (JObj [(''gitDirectoryUri'', JStr (repo_uri \<lparr>repo_uri = ''/repo'', repo_commit = Some ''def''\<rparr>))])]\<rparr>)"
    by blast
  then show ?thesis
    by (simp add: retriever_repo_def)
qed

section \<open>Calls extend the events\<close>

lemma extends_refl: "extends s s"
  by (simp add: extends_def)

lemma extends_iff:
  "extends s s' \<longleftrightarrow>
     loadedBFG s' = loadedBFG s \<and> didFailLoading s' = didFailLoading s
     \<and> (\<exists>new. events s' = events s @ new \<and> list_all eventShape new \<and> Spawn \<notin> set new
            \<and> (isl (loadedBFG s) \<longrightarrow> new = []))"
proof
  assume e: "extends s s'"
  let ?new = "drop (length (events s)) (events s')"
  have t: "take (length (events s)) (events s') = events s"
    using e by (simp add: extends_def)
  have a: "events s' = events s @ ?new"
    using append_take_drop_id [of "length (events s)" "events s'"] unfolding t by (rule sym)
  have b: "list_all eventShape ?new" and c: "Spawn \<notin> set ?new"
    using e by (simp_all add: extends_def)
  have d: "isl (loadedBFG s) \<longrightarrow> ?new = []"
    using e by (simp add: extends_def split: if_splits)
  have f: "loadedBFG s' = loadedBFG s" "didFailLoading s' = didFailLoading s"
    using e by (simp_all add: extends_def)
  from a b c d f
  show "loadedBFG s' = loadedBFG s \<and> didFailLoading s' = didFailLoading s
     \<and> (\<exists>new. events s' = events s @ new \<and> list_all eventShape new \<and> Spawn \<notin> set new
            \<and> (isl (loadedBFG s) \<longrightarrow> new = []))"
    by blast
next
  assume "loadedBFG s' = loadedBFG s \<and> didFailLoading s' = didFailLoading s
     \<and> (\<exists>new. events s' = events s @ new \<and> list_all eventShape new \<and> Spawn \<notin> set new
            \<and> (isl (loadedBFG s) \<longrightarrow> new = []))"
  then obtain new where "loadedBFG s' = loadedBFG s" "didFailLoading s' = didFailLoading s"
      "events s' = events s @ new" "list_all eventShape new" "Spawn \<notin> set new"
      "isl (loadedBFG s) \<longrightarrow> new = []"
    by blast
  then show "extends s s'"
    by (simp add: extends_def)
qed

lemma extends_trans:
  assumes "extends s s1" and "extends s1 s2"
  shows "extends s s2"
proof -
  obtain n1 where n1: "events s1 = events s @ n1" "list_all eventShape n1" "Spawn \<notin> set n1"
      "isl (loadedBFG s) \<longrightarrow> n1 = []"
    and f1: "loadedBFG s1 = loadedBFG s" "didFailLoading s1 = didFailLoading s"
    using assms(1) unfolding extends_iff by blast
  obtain n2 where n2: "events s2 = events s1 @ n2" "list_all eventShape n2" "Spawn \<notin> set n2"
      "isl (loadedBFG s1) \<longrightarrow> n2 = []"
    and f2: "loadedBFG s2 = loadedBFG s1" "didFailLoading s2 = didFailLoading s1"
    using assms(2) unfolding extends_iff by blast
  have "events s2 = events s @ (n1 @ n2)" "list_all eventShape (n1 @ n2)" "Spawn \<notin> set (n1 @ n2)"
      "isl (loadedBFG s) \<longrightarrow> n1 @ n2 = []"
    using n1 n2 f1 by simp_all
  then show ?thesis
    unfolding extends_iff using f1 f2 by (intro conjI exI [of _ "n1 @ n2"]) simp_all
qed

lemma extends_request:
  assumes "loadedBFG s = Inr ()" and "rpcShape method params"
  shows "extends s (snd (request eng method params s))"
  using assms by (simp add: extends_def request_def)

lemma extends_map_update: "extends s (s\<lparr>indexedRepositoryRevisions := m\<rparr>)"
  by (simp add: extends_def)

lemma rpcShape_simps [simp]:
  "rpcShape ''bfg/gitRevision/didChange'' (JObj [(''gitDirectoryUri'', JStr u)])"
  "rpcShape ''bfg/workspace/didChange'' (JObj [(''workspaceUri'', JStr w)])"
  "rpcShape ''bfg/initialize'' (JObj [(''clientName'', JStr ''vscode'')])"
  "rpcShape ''bfg/shutdown'' JNull"
  "rpcShape ''bfg/contextForIdentifiers''
     (JObj [(''uri'', JStr u), (''identifiers'', JArr (map (\<lambda>r. JStr (f r)) xs)),
            (''maxSnippets'', JNum 20), (''maxDepth'', JNum 4)])"
  by (simp_all add: rpcShape_def list_all_iff)

lemma extends_indexEntry: "extends s (snd (indexEntry eng repository workspace s))"
proof (cases "loadedBFG s")
  case (Inl e)
  then show ?thesis by (simp add: indexEntry_def extends_refl)
next
  case (Inr u)
  then show ?thesis
    by (cases repository; cases workspace)
       (auto simp: indexEntry_def extends_def request_def split: sum.splits)
qed

lemma extends_didChangeSimpleRepository:
  "extends s (snd (didChangeSimpleRepository eng repository s))"
  unfolding didChangeSimpleRepository_def Let_def
  using extends_trans [OF extends_map_update extends_indexEntry] extends_refl
  by simp

lemma extends_didChangeGitExtensionRepository:
  "extends s (snd (didChangeGitExtensionRepository eng repository s))"
  unfolding didChangeGitExtensionRepository_def
  using extends_didChangeSimpleRepository extends_refl
  by (simp split: option.splits)

lemma extends_indexInferredLoop:
  "extends s (snd (indexInferredLoop eng ws folders s))"
proof (induction folders arbitrary: s)
  case Nil
  then show ?case by (simp add: extends_refl)
next
  case (Cons folder rest)
  show ?case
  proof (cases "map_of (indexedRepositoryRevisions s) folder \<noteq> None")
    case True
    then show ?thesis using Cons.IH by simp
  next
    case False
    show ?thesis
    proof (cases "inferGitRepository ws folder")
      case (Inl e)
      then show ?thesis using False by (simp add: extends_refl)
    next
      case (Inr found)
      show ?thesis
      proof (cases found)
        case None
        then show ?thesis using False Inr Cons.IH by simp
      next
        case (Some repo)
        obtain r s1 where d: "didChangeSimpleRepository eng repo s = (r, s1)"
          by (cases "didChangeSimpleRepository eng repo s")
        have e1: "extends s s1"
          using extends_didChangeSimpleRepository [of s eng repo] d by simp
        show ?thesis
        proof (cases r)
          case (Inl e)
          then show ?thesis using False Inr Some d e1 by simp
        next
          case r: (Inr u)
          have "extends s (snd (indexInferredLoop eng ws rest s1))"
            using extends_trans [OF e1 Cons.IH] .
          then show ?thesis using False Inr Some d r by simp
        qed
      qed
    qed
  qed
qed

lemma extends_indexInferredGitRepositories:
  "extends s (snd (indexInferredGitRepositories eng ws s))"
  by (simp add: indexInferredGitRepositories_def extends_refl extends_indexInferredLoop)

lemma extends_indexOpenRepositories:
  "extends s (snd (indexOpenRepositories eng repositories s))"
proof (induction repositories arbitrary: s)
  case Nil
  then show ?case by (simp add: extends_refl)
next
  case (Cons repository rest)
  obtain r s1 where d: "didChangeGitExtensionRepository eng repository s = (r, s1)"
    by (cases "didChangeGitExtensionRepository eng repository s")
  have e1: "extends s s1"
    using extends_didChangeGitExtensionRepository [of s eng repository] d by simp
  show ?case
  proof (cases r)
    case (Inl e)
    then show ?thesis using d e1 by simp
  next
    case (Inr u)
    have "extends s (snd (indexOpenRepositories eng rest s1))"
      using extends_trans [OF e1 Cons.IH] .
    then show ?thesis using d Inr by simp
  qed
qed

lemma extends_indexGitRepositories:
  "extends s (snd (indexGitRepositories eng ws s))"
proof (cases "gitRepositories ws")
  case None
  then show ?thesis by (simp add: indexGitRepositories_def extends_refl)
next
  case (Some repositories)
  obtain r s1 where d: "indexOpenRepositories eng repositories s = (r, s1)"
    by (cases "indexOpenRepositories eng repositories s")
  have e1: "extends s s1"
    using extends_indexOpenRepositories [of s eng repositories] d by simp
  show ?thesis
  proof (cases r)
    case (Inl e)
    then show ?thesis using Some d e1 by (simp add: indexGitRepositories_def)
  next
    case (Inr u)
    have "extends s (snd (indexInferredGitRepositories eng ws s1))"
      using extends_trans [OF e1 extends_indexInferredGitRepositories] .
    then show ?thesis using Some d Inr by (simp add: indexGitRepositories_def)
  qed
qed

lemma extends_indexRemainingWorkspaceFolders:
  "extends s (snd (indexRemainingWorkspaceFolders eng folders s))"
proof (induction folders arbitrary: s)
  case Nil
  then show ?case by (simp add: extends_refl)
next
  case (Cons folder rest)
  show ?case
  proof (cases "isWorkspaceIndexed s folder")
    case True
    then show ?thesis using Cons.IH by simp
  next
    case False
    obtain r s1 where d: "indexEntry eng None (Some folder) s = (r, s1)"
      by (cases "indexEntry eng None (Some folder) s")
    have e1: "extends s s1"
      using extends_indexEntry [of s eng None "Some folder"] d by simp
    show ?thesis
    proof (cases r)
      case (Inl e)
      then show ?thesis using False d e1 by simp
    next
      case (Inr u)
      have "extends s (snd (indexRemainingWorkspaceFolders eng rest s1))"
        using extends_trans [OF e1 Cons.IH] .
      then show ?thesis using False d Inr by simp
    qed
  qed
qed

lemma extends_indexWorkspace:
  "extends s (snd (indexWorkspace eng ws s))"
proof -
  obtain r s1 where d: "indexGitRepositories eng ws s = (r, s1)"
    by (cases "indexGitRepositories eng ws s")
  have e1: "extends s s1"
    using extends_indexGitRepositories [of s eng ws] d by simp
  show ?thesis
  proof (cases r)
    case (Inl e)
    then show ?thesis using d e1 by (simp add: indexWorkspace_def)
  next
    case (Inr u)
    have "extends s (snd (indexRemainingWorkspaceFolders eng (workspaceFolders ws) s1))"
      using extends_trans [OF e1 extends_indexRemainingWorkspaceFolders] .
    then show ?thesis using d Inr by (simp add: indexWorkspace_def)
  qed
qed

lemma retrieve_try_state:
  "snd (retrieve_try eng ids uriFrom opts s) = s
   \<or> (\<not> didFailLoading s \<and> loadedBFG s = Inr ()
       \<and> (snd (retrieve_try eng ids uriFrom opts s) = s\<lparr>events := events s @ [Probe]\<rparr>
           \<or> (\<exists>xs. inputIdentifiers ids opts = Inr xs
                \<and> snd (retrieve_try eng ids uriFrom opts s) =
                   s\<lparr>events := events s @ [Probe, Request ''bfg/contextForIdentifiers''
                       (JObj [(''uri'', JStr (doc_uri (opt_document opts))),
                              (''identifiers'', JArr (map (\<lambda>snippetRequest. JStr (symbolName snippetRequest)) xs)),
                              (''maxSnippets'', JNum 20),
                              (''maxDepth'', JNum 4)])]\<rparr>)))"
proof (cases "didFailLoading s")
  case True
  then show ?thesis by (simp add: retrieve_try_def)
next
  case nf: False
  show ?thesis
  proof (cases "loadedBFG s")
    case (Inl e)
    then show ?thesis using nf by (simp add: retrieve_try_def)
  next
    case ld: (Inr u)
    show ?thesis
    proof (cases "alive eng (events s)")
      case False
      then show ?thesis using nf ld by (simp add: retrieve_try_def isAlive_def)
    next
      case al: True
      show ?thesis
      proof (cases "awaitIndexing s \<and> isl (bfgIndexingPromise s)")
        case True
        then obtain e where "awaitIndexing s" and "bfgIndexingPromise s = Inl e"
          by (cases "bfgIndexingPromise s") auto
        then show ?thesis using nf ld al by (simp add: retrieve_try_def isAlive_def)
      next
        case False
        then have aw: "awaitIndexing s \<longrightarrow> bfgIndexingPromise s = Inr ()"
          by (cases "bfgIndexingPromise s") auto
        show ?thesis
        proof (cases "inputIdentifiers ids opts")
          case (Inl e)
          then show ?thesis using nf ld al aw by (simp add: retrieve_try_def isAlive_def)
        next
          case xs: (Inr xs)
          show ?thesis
          proof (cases "respond eng (events s @ [Probe]) ''bfg/contextForIdentifiers''
                         (JObj [(''uri'', JStr (doc_uri (opt_document opts))),
                              (''identifiers'', JArr (map (\<lambda>snippetRequest. JStr (symbolName snippetRequest)) xs)),
                              (''maxSnippets'', JNum 20),
                              (''maxDepth'', JNum 4)])")
            case (Inl e)
            then show ?thesis using nf ld al aw xs
              by (simp add: retrieve_try_def isAlive_def request_def)
          next
            case (Inr response)
            then show ?thesis using nf ld al aw xs
              by (simp add: retrieve_try_def isAlive_def request_def)
          qed
        qed
      qed
    qed
  qed
qed

lemma extends_retrieve_try:
  "extends s (snd (retrieve_try eng ids uriFrom opts s))"
  using retrieve_try_state [of eng ids uriFrom opts s]
  by (elim disjE conjE exE) (simp_all add: extends_def)

lemma extends_retrieve:
  "extends s (snd (retrieve eng ids uriFrom opts s))"
  using extends_retrieve_try [of s eng ids uriFrom opts]
  by (cases "retrieve_try eng ids uriFrom opts s") (auto simp: retrieve_def split: sum.splits)

lemma extends_dispose: "extends s (dispose eng s)"
  by (auto simp: dispose_def extends_refl extends_request split: sum.splits)

lemma extends_perform: "extends s (snd (perform eng ids uriFrom c s))"
  using extends_retrieve [of s eng ids uriFrom] extends_didChangeGitExtensionRepository [of s eng]
    extends_indexInferredGitRepositories [of s eng] extends_dispose [of s eng]
  by (cases c) (auto simp: perform_def split: prod.splits, (metis snd_conv)+)

lemma extends_session: "extends s (snd (session eng ids uriFrom calls s))"
proof (induction calls arbitrary: s)
  case Nil
  then show ?case by (simp add: extends_refl)
next
  case (Cons c cs)
  have "extends s (snd (session eng ids uriFrom cs (snd (perform eng ids uriFrom c s))))"
    using extends_trans [OF extends_perform Cons.IH] .
  then show ?case by (auto split: prod.splits)
qed

section \<open>Startup\<close>

lemma rpcShape_method:
  "rpcShape method params \<Longrightarrow>
     method \<in> set [''bfg/initialize'', ''bfg/gitRevision/didChange'', ''bfg/workspace/didChange'',
                    ''bfg/contextForIdentifiers'', ''bfg/shutdown'']"
  unfolding rpcShape_def by (simp split: if_splits)

lemma doLoadBFG_cases:
  assumes "events s = []"
  shows "(spawnBfg eng [] \<noteq> None \<and> isl (fst (doLoadBFG eng s))
            \<and> snd (doLoadBFG eng s) = s\<lparr>events := [Spawn]\<rparr>)
         \<or> (spawnBfg eng [] = None
            \<and> isl (fst (doLoadBFG eng s))
                = isl (respond eng [Spawn] ''bfg/initialize'' (JObj [(''clientName'', JStr ''vscode'')]))
            \<and> snd (doLoadBFG eng s) =
                s\<lparr>events := [Spawn, Request ''bfg/initialize'' (JObj [(''clientName'', JStr ''vscode'')])]\<rparr>)"
  using assms
  by (cases "spawnBfg eng []";
      cases "respond eng [Spawn] ''bfg/initialize'' (JObj [(''clientName'', JStr ''vscode'')])")
     (simp_all add: doLoadBFG_def request_def)

lemma new_BfgRetriever_loaded:
  "didFailLoading (new_BfgRetriever eng ws) = isl (loadedBFG (new_BfgRetriever eng ws))
   \<and> isl (loadedBFG (new_BfgRetriever eng ws))
       = (spawnBfg eng [] \<noteq> None
          \<or> isl (respond eng [Spawn] ''bfg/initialize'' (JObj [(''clientName'', JStr ''vscode'')])))
   \<and> (\<exists>new. events (new_BfgRetriever eng ws) =
          (if spawnBfg eng [] \<noteq> None then [Spawn]
           else [Spawn, Request ''bfg/initialize'' (JObj [(''clientName'', JStr ''vscode'')])]) @ new
        \<and> list_all eventShape new \<and> Spawn \<notin> set new
        \<and> (isl (loadedBFG (new_BfgRetriever eng ws)) \<longrightarrow> new = []))"
proof -
  let ?s0 = "\<lparr>loadedBFG = Inr (), bfgIndexingPromise = Inr (),
                awaitIndexing = awaitIndexingSetting ws, didFailLoading = False,
                indexedRepositoryRevisions = [], events = []\<rparr>"
  obtain loaded s1 where l: "doLoadBFG eng ?s0 = (loaded, s1)"
    by (cases "doLoadBFG eng ?s0")
  let ?s2 = "s1\<lparr>loadedBFG := loaded, didFailLoading := (case loaded of Inl _ \<Rightarrow> True | Inr _ \<Rightarrow> False)\<rparr>"
  obtain indexed s3 where i: "indexWorkspace eng ws ?s2 = (indexed, s3)"
    by (cases "indexWorkspace eng ws ?s2")
  have r: "new_BfgRetriever eng ws = s3\<lparr>bfgIndexingPromise := indexed\<rparr>"
    using l i by (simp add: new_BfgRetriever_def)
  have e: "extends ?s2 s3"
    using extends_indexWorkspace [of ?s2 eng ws] i by simp
  then obtain new where n: "events s3 = events ?s2 @ new" "list_all eventShape new" "Spawn \<notin> set new"
      "isl (loadedBFG ?s2) \<longrightarrow> new = []"
      and f: "loadedBFG s3 = loadedBFG ?s2" "didFailLoading s3 = didFailLoading ?s2"
    unfolding extends_iff by blast
  have d: "didFailLoading ?s2 = isl loaded"
    by (cases loaded) simp_all
  have c: "(spawnBfg eng [] \<noteq> None \<and> isl loaded \<and> events s1 = [Spawn])
         \<or> (spawnBfg eng [] = None
            \<and> isl loaded = isl (respond eng [Spawn] ''bfg/initialize'' (JObj [(''clientName'', JStr ''vscode'')]))
            \<and> events s1 = [Spawn, Request ''bfg/initialize'' (JObj [(''clientName'', JStr ''vscode'')])])"
    using doLoadBFG_cases [of ?s0 eng] l by auto
  have 1: "didFailLoading (new_BfgRetriever eng ws) = isl (loadedBFG (new_BfgRetriever eng ws))"
    using r f d by simp
  have 2: "isl (loadedBFG (new_BfgRetriever eng ws))
       = (spawnBfg eng [] \<noteq> None
          \<or> isl (respond eng [Spawn] ''bfg/initialize'' (JObj [(''clientName'', JStr ''vscode'')])))"
    using r f c by auto
  have 3: "events (new_BfgRetriever eng ws) =
          (if spawnBfg eng [] \<noteq> None then [Spawn]
           else [Spawn, Request ''bfg/initialize'' (JObj [(''clientName'', JStr ''vscode'')])]) @ new"
    using r n(1) c by auto
  have 4: "isl (loadedBFG (new_BfgRetriever eng ws)) \<longrightarrow> new = []"
    using r f n(4) by simp
  from 1 2 3 4 n(2,3) show ?thesis by blast
qed

lemma retrieve_failed: "didFailLoading s \<Longrightarrow> retrieve eng ids uriFrom opts s = (Inr [], s)"
  by (simp add: retrieve_def retrieve_try_def)

lemma session_failed_outcomes:
  "didFailLoading s \<Longrightarrow> Snippets r \<in> set (fst (session eng ids uriFrom calls s)) \<Longrightarrow> r = Inr []"
proof (induction calls arbitrary: s)
  case Nil
  then show ?case by simp
next
  case (Cons c cs)
  obtain out s1 where p: "perform eng ids uriFrom c s = (out, s1)"
    by (cases "perform eng ids uriFrom c s")
  have "extends s s1"
    using extends_perform [of s eng ids uriFrom c] p by simp
  then have f1: "didFailLoading s1"
    using Cons.prems(1) by (simp add: extends_def)
  have o: "out = Snippets r \<Longrightarrow> r = Inr []"
    using p Cons.prems(1) by (cases c) (auto simp: perform_def retrieve_failed split: prod.splits)
  from Cons.prems(2) p have "Snippets r = out \<or> Snippets r \<in> set (fst (session eng ids uriFrom cs s1))"
    by (auto split: prod.splits)
  then show ?case using o Cons.IH [OF f1] by auto
qed

text \<open>
  C4. If the spawn or the initialize request fails, the constructed retriever has recorded
  the failure, and it has sent nothing but the failed start. From then on, through any
  sequence of calls, the events stay as they are (no request, no probe, no second spawn),
  the failure stays recorded, every retrieve of the sequence returns the empty list, and
  a further retrieve returns the empty list and leaves the state as it is.
\<close>

theorem startup_failure_sticky:
  assumes "spawnBfg eng [] \<noteq> None
           \<or> isl (respond eng [Spawn] ''bfg/initialize'' (JObj [(''clientName'', JStr ''vscode'')]))"
  shows "didFailLoading (new_BfgRetriever eng ws)
    \<and> events (new_BfgRetriever eng ws) =
         (if spawnBfg eng [] \<noteq> None then [Spawn]
          else [Spawn, Request ''bfg/initialize'' (JObj [(''clientName'', JStr ''vscode'')])])
    \<and> events (snd (session eng ids uriFrom calls (new_BfgRetriever eng ws))) = events (new_BfgRetriever eng ws)
    \<and> didFailLoading (snd (session eng ids uriFrom calls (new_BfgRetriever eng ws)))
    \<and> (\<forall>r. Snippets r \<in> set (fst (session eng ids uriFrom calls (new_BfgRetriever eng ws))) \<longrightarrow> r = Inr [])
    \<and> retrieve eng ids uriFrom opts (snd (session eng ids uriFrom calls (new_BfgRetriever eng ws)))
        = (Inr [], snd (session eng ids uriFrom calls (new_BfgRetriever eng ws)))"
proof -
  let ?s = "new_BfgRetriever eng ws"
  let ?s' = "snd (session eng ids uriFrom calls ?s)"
  have l: "isl (loadedBFG ?s)" and d: "didFailLoading ?s"
    using new_BfgRetriever_loaded [of eng ws] assms by simp_all
  have ev: "events ?s =
         (if spawnBfg eng [] \<noteq> None then [Spawn]
          else [Spawn, Request ''bfg/initialize'' (JObj [(''clientName'', JStr ''vscode'')])])"
    using new_BfgRetriever_loaded [of eng ws] l by auto
  have e: "extends ?s ?s'"
    by (rule extends_session)
  then have ev': "events ?s' = events ?s" and d': "didFailLoading ?s'"
    using l d by (simp_all add: extends_def)
  have o: "\<forall>r. Snippets r \<in> set (fst (session eng ids uriFrom calls ?s)) \<longrightarrow> r = Inr []"
    using session_failed_outcomes [OF d] by blast
  have r: "retrieve eng ids uriFrom opts ?s' = (Inr [], ?s')"
    using d' by (rule retrieve_failed)
  from d ev ev' d' o r show ?thesis by blast
qed

section \<open>Requests of a session\<close>

lemma new_BfgRetriever_ready:
  "new_BfgRetriever engine_ready workspace_repo =
     \<lparr>loadedBFG = Inr (), bfgIndexingPromise = Inr (), awaitIndexing = False, didFailLoading = False,
      indexedRepositoryRevisions = [(''/repo'', ''abc'')],
      events = [Spawn, Request ''bfg/initialize'' (JObj [(''clientName'', JStr ''vscode'')]),
                Request ''bfg/gitRevision/didChange'' (JObj [(''gitDirectoryUri'', JStr ''/repo'')]),
                Request ''bfg/workspace/didChange'' (JObj [(''workspaceUri'', JStr ''/other'')])]\<rparr>"
  by (simp add: new_BfgRetriever_def doLoadBFG_def request_def engine_ready_def workspace_repo_def
      indexWorkspace_def indexGitRepositories_def didChangeGitExtensionRepository_def
      didChangeSimpleRepository_def indexEntry_def indexInferredGitRepositories_def
      isWorkspaceIndexed_def startsWith_def Let_def)

lemma new_BfgRetriever_no_spawn:
  "new_BfgRetriever engine_no_spawn workspace_repo =
     \<lparr>loadedBFG = Inl (Error ''spawn''), bfgIndexingPromise = Inl (Error ''spawn''),
      awaitIndexing = False, didFailLoading = True,
      indexedRepositoryRevisions = [(''/repo'', ''abc'')], events = [Spawn]\<rparr>"
  by (simp add: new_BfgRetriever_def doLoadBFG_def request_def engine_no_spawn_def workspace_repo_def
      indexWorkspace_def indexGitRepositories_def didChangeGitExtensionRepository_def
      didChangeSimpleRepository_def indexEntry_def indexInferredGitRepositories_def
      isWorkspaceIndexed_def startsWith_def Let_def)

lemma inputIdentifiers_overlap:
  "inputIdentifiers identifiers_overlap options_a =
     Inr [\<lparr>ref = 1, symbolName = ''foo''\<rparr>, \<lparr>ref = 2, symbolName = ''bar''\<rparr>,
          \<lparr>ref = 3, symbolName = ''bar''\<rparr>, \<lparr>ref = 4, symbolName = ''baz''\<rparr>]"
  by (simp add: inputIdentifiers_def identifiers_overlap_def options_a_def lastCandidateCurrentLine_def)

lemma retrieve_ready:
  "retrieve engine_ready identifiers_overlap uriFrom options_a (new_BfgRetriever engine_ready workspace_repo) =
     (Inr [], (new_BfgRetriever engine_ready workspace_repo)
        \<lparr>events := events (new_BfgRetriever engine_ready workspace_repo) @
           [Probe, Request ''bfg/contextForIdentifiers''
              (JObj [(''uri'', JStr ''/repo/a.ts''),
                     (''identifiers'', JArr [JStr ''foo'', JStr ''bar'', JStr ''bar'', JStr ''baz'']),
                     (''maxSnippets'', JNum 20), (''maxDepth'', JNum 4)])]\<rparr>)"
  by (simp add: retrieve_def retrieve_try_def isAlive_def request_def new_BfgRetriever_ready
      inputIdentifiers_overlap)
     (simp add: engine_ready_def options_a_def responseSymbols_def)

text \<open>A failed spawn, then two calls of retrieve around a change of the repository.\<close>

theorem startup_failure_sticky_witness:
  "spawnBfg engine_no_spawn [] \<noteq> None
   \<and> didFailLoading (new_BfgRetriever engine_no_spawn workspace_repo)
   \<and> events (new_BfgRetriever engine_no_spawn workspace_repo) = [Spawn]
   \<and> session engine_no_spawn identifiers_overlap Inr
        [Retrieve options_a, DidChangeGitExtensionRepository \<lparr>rootUri = ''/repo'', head_commit = Some ''def''\<rparr>,
         Retrieve options_a]
        (new_BfgRetriever engine_no_spawn workspace_repo)
      = ([Snippets (Inr []), Settled (Inl (Error ''spawn'')), Snippets (Inr [])],
         (new_BfgRetriever engine_no_spawn workspace_repo)\<lparr>indexedRepositoryRevisions := [(''/repo'', ''def'')]\<rparr>)"
proof -
  have a: "spawnBfg engine_no_spawn [] \<noteq> None"
    by (simp add: engine_no_spawn_def)
  have b: "session engine_no_spawn identifiers_overlap Inr
        [Retrieve options_a, DidChangeGitExtensionRepository \<lparr>rootUri = ''/repo'', head_commit = Some ''def''\<rparr>,
         Retrieve options_a]
        (new_BfgRetriever engine_no_spawn workspace_repo)
      = ([Snippets (Inr []), Settled (Inl (Error ''spawn'')), Snippets (Inr [])],
         (new_BfgRetriever engine_no_spawn workspace_repo)\<lparr>indexedRepositoryRevisions := [(''/repo'', ''def'')]\<rparr>)"
    by (simp add: new_BfgRetriever_no_spawn perform_def retrieve_failed didChangeGitExtensionRepository_def
        didChangeSimpleRepository_def indexEntry_def Let_def)
  from startup_failure_sticky [of engine_no_spawn workspace_repo identifiers_overlap Inr
      "[Retrieve options_a, DidChangeGitExtensionRepository \<lparr>rootUri = ''/repo'', head_commit = Some ''def''\<rparr>,
         Retrieve options_a]" options_a] a b
  show ?thesis by simp
qed

text \<open>
  C3, as amended. Every request that the retriever sends to the engine, in its constructor
  and in any sequence of calls after it, has one of the method names \<open>bfg/initialize\<close>,
  \<open>bfg/gitRevision/didChange\<close>, \<open>bfg/workspace/didChange\<close>,
  \<open>bfg/contextForIdentifiers\<close>, \<open>bfg/shutdown\<close>, with the parameters of that
  method: \<open>{clientName}\<close>, \<open>{gitDirectoryUri}\<close>, \<open>{workspaceUri}\<close>,
  \<open>{uri, identifiers, maxSnippets, maxDepth}\<close> and \<open>null\<close>.
\<close>

theorem session_requests_shape:
  assumes "Request method params \<in> set (events (snd (session eng ids uriFrom calls (new_BfgRetriever eng ws))))"
  shows "method \<in> set [''bfg/initialize'', ''bfg/gitRevision/didChange'', ''bfg/workspace/didChange'',
                        ''bfg/contextForIdentifiers'', ''bfg/shutdown'']
         \<and> rpcShape method params"
proof -
  let ?s = "new_BfgRetriever eng ws"
  let ?s' = "snd (session eng ids uriFrom calls ?s)"
  obtain new0 where n0: "events ?s =
          (if spawnBfg eng [] \<noteq> None then [Spawn]
           else [Spawn, Request ''bfg/initialize'' (JObj [(''clientName'', JStr ''vscode'')])]) @ new0"
      "list_all eventShape new0"
    using new_BfgRetriever_loaded [of eng ws] by blast
  obtain new where n: "events ?s' = events ?s @ new" "list_all eventShape new"
    using extends_session [of ?s eng ids uriFrom calls] unfolding extends_iff by blast
  have "list_all eventShape (events ?s')"
    unfolding n(1) n0(1) using n0(2) n(2) by simp
  then have "eventShape (Request method params)"
    using assms by (auto simp: list_all_iff)
  then have "rpcShape method params" by simp
  then show ?thesis using rpcShape_method by blast
qed

theorem session_requests_shape_witness:
  "Request ''bfg/contextForIdentifiers''
       (JObj [(''uri'', JStr ''/repo/a.ts''),
              (''identifiers'', JArr [JStr ''foo'', JStr ''bar'', JStr ''bar'', JStr ''baz'']),
              (''maxSnippets'', JNum 20), (''maxDepth'', JNum 4)])
     \<in> set (events (snd (session engine_ready identifiers_overlap Inr [Retrieve options_a]
                (new_BfgRetriever engine_ready workspace_repo))))
   \<and> rpcShape ''bfg/contextForIdentifiers''
       (JObj [(''uri'', JStr ''/repo/a.ts''),
              (''identifiers'', JArr [JStr ''foo'', JStr ''bar'', JStr ''bar'', JStr ''baz'']),
              (''maxSnippets'', JNum 20), (''maxDepth'', JNum 4)])"
proof -
  have a: "Request ''bfg/contextForIdentifiers''
       (JObj [(''uri'', JStr ''/repo/a.ts''),
              (''identifiers'', JArr [JStr ''foo'', JStr ''bar'', JStr ''bar'', JStr ''baz'']),
              (''maxSnippets'', JNum 20), (''maxDepth'', JNum 4)])
     \<in> set (events (snd (session engine_ready identifiers_overlap Inr [Retrieve options_a]
                (new_BfgRetriever engine_ready workspace_repo))))"
    by (simp add: perform_def retrieve_ready)
  from session_requests_shape [OF a] a show ?thesis by blast
qed

text \<open>The requests of one retrieve call are not named \<open>engine/...\<close>.\<close>

theorem spec_method_names_counterexample:
  "\<not> list_all specMethod
       (events (snd (session engine_ready identifiers_overlap Inr [Retrieve options_a]
          (new_BfgRetriever engine_ready workspace_repo))))"
  by (simp add: perform_def retrieve_ready) (simp add: new_BfgRetriever_ready specMethodNames_def)

text \<open>
  C2. The identifiers of the two sources are put in a \<open>Set\<close> as objects and mapped to
  their names afterwards. With \<open>foo\<close>, \<open>bar\<close> from the last candidate and
  \<open>bar\<close>, \<open>baz\<close> from the document, four distinct objects, the request
  carries \<open>foo\<close>, \<open>bar\<close>, \<open>bar\<close>, \<open>baz\<close>: the name \<open>bar\<close> twice.
\<close>

theorem retrieve_sends_duplicate_names:
  "events (snd (retrieve engine_ready identifiers_overlap Inr options_a
                  (new_BfgRetriever engine_ready workspace_repo)))
     = events (new_BfgRetriever engine_ready workspace_repo) @
         [Probe, Request ''bfg/contextForIdentifiers''
            (JObj [(''uri'', JStr ''/repo/a.ts''),
                   (''identifiers'', JArr [JStr ''foo'', JStr ''bar'', JStr ''bar'', JStr ''baz'']),
                   (''maxSnippets'', JNum 20), (''maxDepth'', JNum 4)])]"
  by (simp add: retrieve_ready)

text \<open>Distinct objects all stay, whatever their names.\<close>

lemma arrayFromSet_distinct: "distinct (map ref xs) \<Longrightarrow> arrayFromSet xs = xs"
proof (induction xs)
  case Nil
  then show ?case by simp
next
  case (Cons x xs)
  have "ref x \<notin> ref ` set xs"
    using Cons.prems by simp
  then have "\<forall>y \<in> set xs. ref y \<noteq> ref x"
    by (metis imageI)
  then have "filter (\<lambda>y. ref y \<noteq> ref x) xs = xs"
    by (simp add: filter_id_conv)
  then show ?case using Cons by simp
qed

lemma responseSymbols_malformed:
  assumes "\<not> wellFormedResponse response"
  shows "responseSymbols uriFrom response = Inr [] \<or> isl (responseSymbols uriFrom response)"
proof (cases response)
  case (JObj props)
  show ?thesis
  proof (cases "map_of props ''symbols''")
    case None
    then show ?thesis using JObj by (simp add: responseSymbols_def)
  next
    case (Some v)
    then show ?thesis using JObj assms by (cases v) (simp_all add: responseSymbols_def)
  qed
qed (simp_all add: responseSymbols_def)

lemma retrieve_total: "\<exists>symbols. fst (retrieve eng ids uriFrom opts s) = Inr symbols"
  by (cases "retrieve_try eng ids uriFrom opts s") (auto simp: retrieve_def split: sum.splits)

section \<open>retrieve\<close>

lemma retrieve_try_malformed:
  assumes "\<forall>h params. case respond eng h ''bfg/contextForIdentifiers'' params of
                         Inl e \<Rightarrow> True | Inr response \<Rightarrow> \<not> wellFormedResponse response"
  shows "fst (retrieve_try eng ids uriFrom opts s) = Inr [] \<or> isl (fst (retrieve_try eng ids uriFrom opts s))"
proof (cases "didFailLoading s")
  case True
  then show ?thesis by (simp add: retrieve_try_def)
next
  case nf: False
  show ?thesis
  proof (cases "loadedBFG s")
    case (Inl e)
    then show ?thesis using nf by (simp add: retrieve_try_def)
  next
    case ld: (Inr u)
    show ?thesis
    proof (cases "alive eng (events s)")
      case False
      then show ?thesis using nf ld by (simp add: retrieve_try_def isAlive_def)
    next
      case al: True
      show ?thesis
      proof (cases "awaitIndexing s \<and> isl (bfgIndexingPromise s)")
        case True
        then obtain e where "awaitIndexing s" and "bfgIndexingPromise s = Inl e"
          by (cases "bfgIndexingPromise s") auto
        then show ?thesis using nf ld al by (simp add: retrieve_try_def isAlive_def)
      next
        case False
        then have aw: "awaitIndexing s \<longrightarrow> bfgIndexingPromise s = Inr ()"
          by (cases "bfgIndexingPromise s") auto
        show ?thesis
        proof (cases "inputIdentifiers ids opts")
          case (Inl e)
          then show ?thesis using nf ld al aw by (simp add: retrieve_try_def isAlive_def)
        next
          case xs: (Inr xs)
          let ?params = "JObj [(''uri'', JStr (doc_uri (opt_document opts))),
                              (''identifiers'', JArr (map (\<lambda>snippetRequest. JStr (symbolName snippetRequest)) xs)),
                              (''maxSnippets'', JNum 20),
                              (''maxDepth'', JNum 4)]"
          show ?thesis
          proof (cases "respond eng (events s @ [Probe]) ''bfg/contextForIdentifiers'' ?params")
            case (Inl e)
            then show ?thesis using nf ld al aw xs
              by (simp add: retrieve_try_def isAlive_def request_def)
          next
            case (Inr response)
            then have "\<not> wellFormedResponse response"
              using assms [rule_format, of "events s @ [Probe]" ?params] by simp
            then have "responseSymbols uriFrom response = Inr [] \<or> isl (responseSymbols uriFrom response)"
              by (rule responseSymbols_malformed)
            then show ?thesis using nf ld al aw xs Inr
              by (auto simp: retrieve_try_def isAlive_def request_def)
          qed
        qed
      qed
    qed
  qed
qed

text \<open>With a well-formed response the snippets of the engine are returned.\<close>

lemma retrieve_answering:
  "fst (retrieve engine_answering identifiers_overlap Inr options_a retriever_repo) =
     Inr [\<lparr>snippet_props = [(''fileName'', JStr ''/repo/b.ts''), (''symbol'', JStr ''foo''),
                             (''content'', JStr ''function foo() {}'')],
           snippet_identifier = BfgRetriever, snippet_fileUri = JStr ''/repo/b.ts''\<rparr>]"
  by (simp add: retrieve_def retrieve_try_def isAlive_def request_def inputIdentifiers_overlap
      retriever_repo_def)
     (simp add: engine_answering_def responseSymbols_def convertSnippet_def)

text \<open>
  C5. retrieve never throws: its result is always a list of snippets. The list is empty
  when the load has failed, when the engine is not alive, and when the engine answers the
  context request with a failure or with a value that is not an object whose \<open>symbols\<close>
  is an array.
\<close>

theorem retrieve_never_throws:
  "(\<exists>symbols. fst (retrieve eng ids uriFrom opts s) = Inr symbols)
   \<and> (didFailLoading s \<or> isl (loadedBFG s) \<or> \<not> alive eng (events s)
        \<or> (\<forall>h params. case respond eng h ''bfg/contextForIdentifiers'' params of
                          Inl e \<Rightarrow> True | Inr response \<Rightarrow> \<not> wellFormedResponse response)
       \<longrightarrow> fst (retrieve eng ids uriFrom opts s) = Inr [])"
proof (intro conjI impI)
  show "\<exists>symbols. fst (retrieve eng ids uriFrom opts s) = Inr symbols"
    by (rule retrieve_total)
next
  assume h: "didFailLoading s \<or> isl (loadedBFG s) \<or> \<not> alive eng (events s)
        \<or> (\<forall>h params. case respond eng h ''bfg/contextForIdentifiers'' params of
                          Inl e \<Rightarrow> True | Inr response \<Rightarrow> \<not> wellFormedResponse response)"
  have "fst (retrieve_try eng ids uriFrom opts s) = Inr [] \<or> isl (fst (retrieve_try eng ids uriFrom opts s))"
    using h
  proof (elim disjE)
    assume "didFailLoading s"
    then show ?thesis by (simp add: retrieve_try_def)
  next
    assume "isl (loadedBFG s)"
    then show ?thesis by (cases "loadedBFG s") (simp_all add: retrieve_try_def)
  next
    assume "\<not> alive eng (events s)"
    then show ?thesis by (cases "loadedBFG s") (simp_all add: retrieve_try_def isAlive_def)
  next
    assume "\<forall>h params. case respond eng h ''bfg/contextForIdentifiers'' params of
                          Inl e \<Rightarrow> True | Inr response \<Rightarrow> \<not> wellFormedResponse response"
    then show ?thesis by (rule retrieve_try_malformed)
  qed
  then show "fst (retrieve eng ids uriFrom opts s) = Inr []"
    by (cases "retrieve_try eng ids uriFrom opts s") (auto simp: retrieve_def split: sum.splits)
qed

theorem retrieve_never_throws_witness:
  "respond engine_ready [] ''bfg/contextForIdentifiers'' JNull = Inr JNull
   \<and> \<not> wellFormedResponse JNull
   \<and> fst (retrieve engine_ready identifiers_overlap Inr options_a retriever_repo) = Inr []
   \<and> fst (retrieve engine_failing identifiers_overlap Inr options_a retriever_repo) = Inr []"
proof -
  have a: "\<forall>h params. case respond engine_ready h ''bfg/contextForIdentifiers'' params of
                          Inl e \<Rightarrow> True | Inr response \<Rightarrow> \<not> wellFormedResponse response"
    by (simp add: engine_ready_def)
  have b: "\<forall>h params. case respond engine_failing h ''bfg/contextForIdentifiers'' params of
                          Inl e \<Rightarrow> True | Inr response \<Rightarrow> \<not> wellFormedResponse response"
    by (simp add: engine_failing_def)
  have c: "respond engine_ready [] ''bfg/contextForIdentifiers'' JNull = Inr JNull"
    by (simp add: engine_ready_def)
  from retrieve_never_throws [of engine_ready identifiers_overlap Inr options_a retriever_repo]
    retrieve_never_throws [of engine_failing identifiers_overlap Inr options_a retriever_repo] a b c
  show ?thesis by simp
qed

end
